theory Spec2Isabelle
  imports Complex_Main "HOL-Library.Finite_Map" "HOL-Library.List_Lexorder"
    "HOL-Library.Char_ord" "HOL-Library.Sublist"
begin

unbundle bit_operations_syntax

section \<open>File integrity monitor: data model\<close>

text \<open>
  The development embeds \<^verbatim>\<open>monitor.py\<close>: the exclusion matcher, the path walker, the
  fingerprint extractor, the baseline builder and the diff engine.

  Exceptions are values. The three classes named by the \<^verbatim>\<open>except\<close> clause of
  \<^verbatim>\<open>build_baseline\<close> are all \<^verbatim>\<open>OSError\<close>s; \<^verbatim>\<open>ValueError\<close> is what \<^verbatim>\<open>hash_file\<close>
  and \<^verbatim>\<open>Path.relative_to\<close> raise, \<^verbatim>\<open>KeyError\<close> what a subscript on a missing
  key raises, \<^verbatim>\<open>TypeError\<close> what \<^verbatim>\<open>hexdigest()\<close> raises on a variable-length digest.
\<close>

datatype os_error = PermissionError | FileNotFoundError | OtherOSError

datatype py_error = OSError os_error | ValueError string | KeyError string | TypeError

text \<open>
  The dataclass \<^verbatim>\<open>FileInfo\<close>; \<^verbatim>\<open>asdict\<close> turns it into a dictionary with the same four
  keys, so one record stands for both. \<^verbatim>\<open>mtime\<close> is a finite float, compared only
  with \<^verbatim>\<open>!=\<close>, and is a rational here. \<^verbatim>\<open>mode\<close> is \<^verbatim>\<open>None\<close> unless permissions are tracked.
\<close>

record file_info =
  hash :: string
  size_bytes :: int
  mtime :: rat
  mode :: "int option"

text \<open>A baseline is a dictionary from path strings to records: finitely many keys.\<close>

type_synonym baseline = "(string, file_info) fmap"

section \<open>Paths\<close>

text \<open>
  A \<^verbatim>\<open>pathlib.Path\<close> on POSIX is its tuple of \<^verbatim>\<open>parts\<close>: an absolute path starts with
  the anchor \<^verbatim>\<open>'/'\<close>, so \<^verbatim>\<open>Path('/a/b').parts == ('/', 'a', 'b')\<close>, and \<^verbatim>\<open>Path('.')\<close> has
  no parts.
\<close>

type_synonym path = "string list"

definition startswith_dot :: "string \<Rightarrow> bool" where
  "startswith_dot s = (case s of [] \<Rightarrow> False | c # _ \<Rightarrow> c = CHR ''.'')"

definition is_hidden :: "path \<Rightarrow> bool" where
  "is_hidden p = list_ex startswith_dot p"

fun join_parts :: "string list \<Rightarrow> string" where
  "join_parts [] = []"
| "join_parts [x] = x"
| "join_parts (x # y # zs) = x @ ''/'' @ join_parts (y # zs)"

definition str_path :: "path \<Rightarrow> string" where
  "str_path p =
     (case p of
        [] \<Rightarrow> ''.''
      | a # rest \<Rightarrow> if a = ''/'' then ''/'' @ join_parts rest else join_parts p)"

definition name_path :: "path \<Rightarrow> string" where
  "name_path p = (if p = [] \<or> p = [''/''] then [] else last p)"

definition is_absolute :: "path \<Rightarrow> bool" where
  "is_absolute p = (case p of [] \<Rightarrow> False | a # _ \<Rightarrow> a = ''/'')"

text \<open>
  \<^verbatim>\<open>path.relative_to(other)\<close> raises \<^verbatim>\<open>ValueError\<close> unless \<^verbatim>\<open>other\<close> is the path itself or
  one of its parents; an absolute path is never relative to the empty path.
\<close>

definition relative_to :: "path \<Rightarrow> path \<Rightarrow> py_error + path" where
  "relative_to p other =
     (if prefix other p \<and> (other = [] \<longrightarrow> \<not> is_absolute p)
      then Inr (drop (length other) p)
      else Inl (ValueError ''not in the subpath''))"

section \<open>The world outside the program\<close>

text \<open>
  What the program sees of a file that is not a directory: the outcome of
  \<^verbatim>\<open>Path.is_file()\<close> (which follows symbolic links and lets a permission error through),
  of \<^verbatim>\<open>Path.stat()\<close>, and of opening and reading it. The three outcomes are independent,
  so a file that vanishes or becomes unreadable between the listing and the read is a
  value of this type.
\<close>

type_synonym bytes = string

record stat_result =
  st_mode :: int
  st_size :: int
  st_mtime :: rat

record file_node =
  probe :: "os_error + bool"
  stat_outcome :: "os_error + stat_result"
  read_outcome :: "os_error + bytes"

text \<open>
  The directory tree. A directory carries whether it is reached through a symbolic link
  and its entries in the order \<^verbatim>\<open>scandir\<close> lists them; \<open>DirNoList\<close> is a directory that
  \<^verbatim>\<open>scandir\<close> cannot list. The tree is finite: a cycle of links is cut where the
  operating system refuses to follow it further.
\<close>

datatype node =
    Entry file_node
  | Dir bool "(string \<times> node) list"
  | DirNoList bool

text \<open>
  A digest object accumulates what \<^verbatim>\<open>update\<close> feeds it; \<^verbatim>\<open>hexdigest()\<close> without a length
  works for a fixed-length digest only.
\<close>

datatype hasher = FixedDigest "bytes \<Rightarrow> string" | XofDigest

text \<open>
  The environment: the tree below \<^verbatim>\<open>/\<close>, the working directory, \<^verbatim>\<open>Path.resolve\<close>,
  \<^verbatim>\<open>fnmatch.fnmatch\<close> and \<^verbatim>\<open>hashlib.new\<close> (\<open>None\<close> for a name it rejects). The library
  functions are parameters; \<^verbatim>\<open>resolve\<close> is taken to return a path for every path.
\<close>

record os_env =
  fs_root :: node
  cwd :: "string list"
  resolve :: "path \<Rightarrow> path"
  fnmatch :: "string \<Rightarrow> string \<Rightarrow> bool"
  hashlib_new :: "string \<Rightarrow> hasher option"

fun descend :: "node \<Rightarrow> string list \<Rightarrow> node option" where
  "descend n [] = Some n"
| "descend n (x # xs) =
     (case n of
        Dir l entries \<Rightarrow>
          (case map_of entries x of None \<Rightarrow> None | Some child \<Rightarrow> descend child xs)
      | _ \<Rightarrow> None)"

definition node_at :: "os_env \<Rightarrow> path \<Rightarrow> node option" where
  "node_at env p =
     (case p of
        [] \<Rightarrow> descend (fs_root env) (cwd env)
      | a # rest \<Rightarrow>
          if a = ''/'' then descend (fs_root env) rest
          else descend (fs_root env) (cwd env @ p))"

text \<open>
  The three probes. \<^verbatim>\<open>is_file\<close> is false for a directory and for a missing path. The
  program calls \<^verbatim>\<open>stat\<close> and \<^verbatim>\<open>open\<close> only on paths that \<^verbatim>\<open>is_file\<close> has accepted; on a
  directory the model answers both with an \<^verbatim>\<open>OSError\<close>, as \<^verbatim>\<open>open\<close> does.
\<close>

definition is_file :: "os_env \<Rightarrow> path \<Rightarrow> os_error + bool" where
  "is_file env p = (case node_at env p of Some (Entry f) \<Rightarrow> probe f | _ \<Rightarrow> Inr False)"

definition stat :: "os_env \<Rightarrow> path \<Rightarrow> os_error + stat_result" where
  "stat env p =
     (case node_at env p of
        Some (Entry f) \<Rightarrow> stat_outcome f
      | Some _ \<Rightarrow> Inl OtherOSError
      | None \<Rightarrow> Inl FileNotFoundError)"

definition read_file :: "os_env \<Rightarrow> path \<Rightarrow> os_error + bytes" where
  "read_file env p =
     (case node_at env p of
        Some (Entry f) \<Rightarrow> read_outcome f
      | Some _ \<Rightarrow> Inl OtherOSError
      | None \<Rightarrow> Inl FileNotFoundError)"

fun is_dir_node :: "node \<Rightarrow> bool" where
  "is_dir_node (Entry f) = False"
| "is_dir_node (Dir l entries) = True"
| "is_dir_node (DirNoList l) = True"

fun is_link_node :: "node \<Rightarrow> bool" where
  "is_link_node (Entry f) = False"
| "is_link_node (Dir l entries) = l"
| "is_link_node (DirNoList l) = l"

text \<open>
  \<^verbatim>\<open>os.walk(top, followlinks=...)\<close>, top down. It lists \<open>dirpath\<close>, hands the caller the
  triple, and then recurses into the names that the caller has left in \<^verbatim>\<open>dirnames\<close>:
  \<open>prune\<close> is the caller's in-place edit of that list. A directory that cannot be listed
  contributes nothing, and a linked directory is entered only with \<open>followlinks\<close>.
\<close>

function os_walk :: "bool \<Rightarrow> (string list \<Rightarrow> string list) \<Rightarrow> path \<Rightarrow> node
    \<Rightarrow> (path \<times> string list \<times> string list) list" where
  "os_walk followlinks prune dirpath (Entry f) = []"
| "os_walk followlinks prune dirpath (DirNoList l) = []"
| "os_walk followlinks prune dirpath (Dir l entries) =
     (let dirs = map fst (filter (\<lambda>e. is_dir_node (snd e)) entries);
          nondirs = map fst (filter (\<lambda>e. \<not> is_dir_node (snd e)) entries)
      in (dirpath, dirs, nondirs) #
         concat (map (\<lambda>dirname.
                   case map_of entries dirname of
                     None \<Rightarrow> []
                   | Some child \<Rightarrow>
                       if followlinks \<or> \<not> is_link_node child
                       then os_walk followlinks prune (dirpath @ [dirname]) child
                       else [])
                 (prune dirs)))"
  by pat_completeness auto
termination
proof (relation "measure (\<lambda>(followlinks, prune, dirpath, n). size n)")
  show "wf (measure (\<lambda>(followlinks, prune, dirpath, n). size n))" by simp
next
  fix followlinks :: bool and prune :: "string list \<Rightarrow> string list" and dirpath :: path
    and l :: bool and entries :: "(string \<times> node) list" and dirs nondirs :: "string list"
    and dirname :: string and child :: node
  assume "map_of entries dirname = Some child"
  then have "(dirname, child) \<in> set entries" by (rule map_of_SomeD)
  then have "size child < Suc (size_list (size_prod (\<lambda>_. 0) size) entries)"
    by (induction entries) auto
  then show "((followlinks, prune, dirpath @ [dirname], child), (followlinks, prune, dirpath, Dir l entries))
      \<in> measure (\<lambda>(followlinks, prune, dirpath, n). size n)"
    by simp
qed

section \<open>Exclusion matcher\<close>

definition match_any :: "os_env \<Rightarrow> string list \<Rightarrow> string \<Rightarrow> bool" where
  "match_any env patterns s = list_ex (\<lambda>pat. fnmatch env s pat) patterns"

text \<open>The loop over the roots: a \<^verbatim>\<open>ValueError\<close> of \<^verbatim>\<open>relative_to\<close> skips the root.\<close>

fun exclude_roots :: "os_env \<Rightarrow> path \<Rightarrow> string list \<Rightarrow> path list \<Rightarrow> bool" where
  "exclude_roots env p patterns [] = False"
| "exclude_roots env p patterns (r # rest) =
     (case relative_to p r of
        Inl e \<Rightarrow> exclude_roots env p patterns rest
      | Inr rel \<Rightarrow>
          if match_any env patterns (str_path rel) then True
          else exclude_roots env p patterns rest)"

definition should_exclude :: "os_env \<Rightarrow> path \<Rightarrow> string list \<Rightarrow> path list \<Rightarrow> bool" where
  "should_exclude env p patterns roots =
     (if patterns = [] then False
      else
        let s_abs = str_path p;
            base = name_path p
        in if match_any env patterns base \<or> match_any env patterns s_abs then True
           else exclude_roots env p patterns roots)"

section \<open>Fingerprint extractor\<close>

definition CHUNK_SIZE :: nat where
  "CHUNK_SIZE = 1024 * 1024"

text \<open>
  The read loop of \<^verbatim>\<open>hash_file\<close>: \<open>remaining\<close> is what the file still holds, \<open>fed\<close> what
  the digest object has received. An empty chunk ends the loop.
\<close>

function read_loop :: "bytes \<Rightarrow> bytes \<Rightarrow> bytes" where
  "read_loop remaining fed =
     (let chunk = take CHUNK_SIZE remaining
      in if chunk = [] then fed
         else read_loop (drop CHUNK_SIZE remaining) (fed @ chunk))"
  by pat_completeness auto
termination
  by (relation "measure (\<lambda>(remaining, fed). length remaining)")
    (auto simp: CHUNK_SIZE_def)

definition hexdigest :: "hasher \<Rightarrow> bytes \<Rightarrow> py_error + string" where
  "hexdigest h fed = (case h of FixedDigest f \<Rightarrow> Inr (f fed) | XofDigest \<Rightarrow> Inl TypeError)"

definition hash_file :: "os_env \<Rightarrow> path \<Rightarrow> string \<Rightarrow> py_error + string" where
  "hash_file env filepath algorithm =
     (case hashlib_new env algorithm of
        None \<Rightarrow> Inl (ValueError (''Unsupported hash algorithm: '' @ algorithm))
      | Some h \<Rightarrow>
          (case read_file env filepath of
             Inl e \<Rightarrow> Inl (OSError e)
           | Inr content \<Rightarrow> hexdigest h (read_loop content [])))"

definition S_IMODE :: "int \<Rightarrow> int" where
  "S_IMODE m = m AND 4095"

definition from_path :: "os_env \<Rightarrow> path \<Rightarrow> string \<Rightarrow> bool \<Rightarrow> py_error + file_info" where
  "from_path env p algorithm track_perms =
     (case stat env p of
        Inl e \<Rightarrow> Inl (OSError e)
      | Inr st \<Rightarrow>
          (case hash_file env p algorithm of
             Inl e \<Rightarrow> Inl e
           | Inr file_hash \<Rightarrow>
               Inr \<lparr>hash = file_hash, size_bytes = st_size st, mtime = st_mtime st,
                    mode = (if track_perms then Some (S_IMODE (st_mode st)) else None)\<rparr>))"

section \<open>Path walker\<close>

text \<open>The edit of \<^verbatim>\<open>dirnames\<close> in the body of the walk.\<close>

definition prune_hidden :: "bool \<Rightarrow> string list \<Rightarrow> string list" where
  "prune_hidden ignore_hidden dirnames =
     (if ignore_hidden then filter (\<lambda>d. \<not> startswith_dot d) dirnames else dirnames)"

text \<open>The inner loop over \<^verbatim>\<open>filenames\<close> of one directory: the paths it yields.\<close>

fun walk_filenames :: "os_env \<Rightarrow> string list \<Rightarrow> path list \<Rightarrow> bool \<Rightarrow> path \<Rightarrow> string list
    \<Rightarrow> path list" where
  "walk_filenames env excludes roots ignore_hidden dpath [] = []"
| "walk_filenames env excludes roots ignore_hidden dpath (fname # rest) =
     (let fpath = dpath @ [fname]
      in if ignore_hidden \<and> is_hidden fpath
         then walk_filenames env excludes roots ignore_hidden dpath rest
         else if should_exclude env fpath excludes roots
         then walk_filenames env excludes roots ignore_hidden dpath rest
         else (case is_file env fpath of
                 Inl e \<Rightarrow> walk_filenames env excludes roots ignore_hidden dpath rest
               | Inr b \<Rightarrow>
                   if b then fpath # walk_filenames env excludes roots ignore_hidden dpath rest
                   else walk_filenames env excludes roots ignore_hidden dpath rest))"

text \<open>The triples that \<^verbatim>\<open>os.walk\<close> hands to the body for one root.\<close>

definition walk_root :: "os_env \<Rightarrow> bool \<Rightarrow> bool \<Rightarrow> path \<Rightarrow> (path \<times> string list \<times> string list) list" where
  "walk_root env follow_symlinks ignore_hidden r =
     (case node_at env r of
        None \<Rightarrow> []
      | Some n \<Rightarrow> os_walk follow_symlinks (prune_hidden ignore_hidden) r n)"

text \<open>
  The generator \<^verbatim>\<open>iter_files\<close> as the list of paths it yields and the exception that
  ends it, if one does: \<^verbatim>\<open>root.is_file()\<close> is outside every \<^verbatim>\<open>try\<close>.
\<close>

fun iter_roots :: "os_env \<Rightarrow> string list \<Rightarrow> bool \<Rightarrow> bool \<Rightarrow> path list \<Rightarrow> path list
    \<Rightarrow> path list \<times> py_error option" where
  "iter_roots env excludes follow_symlinks ignore_hidden roots [] = ([], None)"
| "iter_roots env excludes follow_symlinks ignore_hidden roots (r # rest) =
     (case is_file env r of
        Inl e \<Rightarrow> ([], Some (OSError e))
      | Inr b \<Rightarrow>
          let here =
                (if b
                 then (if (\<not> ignore_hidden \<or> \<not> is_hidden r) \<and> \<not> should_exclude env r excludes roots
                       then [r] else [])
                 else concat (map (\<lambda>(dirpath, dirnames, filenames).
                                walk_filenames env excludes roots ignore_hidden dirpath filenames)
                              (walk_root env follow_symlinks ignore_hidden r)))
          in (case iter_roots env excludes follow_symlinks ignore_hidden roots rest of
                (later, err) \<Rightarrow> (here @ later, err)))"

definition iter_files :: "os_env \<Rightarrow> path list \<Rightarrow> string list \<Rightarrow> bool \<Rightarrow> bool
    \<Rightarrow> path list \<times> py_error option" where
  "iter_files env paths excludes follow_symlinks ignore_hidden =
     (let roots = map (resolve env) paths
      in iter_roots env excludes follow_symlinks ignore_hidden roots roots)"

text \<open>
  The directories the walk lists: the \<^verbatim>\<open>dirpath\<close> of every triple that the loop over
  \<^verbatim>\<open>os.walk\<close> receives, for the roots reached before the generator ends.
\<close>

fun visited_roots :: "os_env \<Rightarrow> bool \<Rightarrow> bool \<Rightarrow> path list \<Rightarrow> path list" where
  "visited_roots env follow_symlinks ignore_hidden [] = []"
| "visited_roots env follow_symlinks ignore_hidden (r # rest) =
     (case is_file env r of
        Inl e \<Rightarrow> []
      | Inr b \<Rightarrow>
          (if b then [] else map fst (walk_root env follow_symlinks ignore_hidden r))
          @ visited_roots env follow_symlinks ignore_hidden rest)"

definition visited_dirs :: "os_env \<Rightarrow> path list \<Rightarrow> bool \<Rightarrow> bool \<Rightarrow> path list" where
  "visited_dirs env paths follow_symlinks ignore_hidden =
     visited_roots env follow_symlinks ignore_hidden (map (resolve env) paths)"

section \<open>Baseline builder\<close>

text \<open>
  The loop of \<^verbatim>\<open>build_baseline\<close> over the yielded paths: an \<^verbatim>\<open>OSError\<close> skips the file,
  any other exception leaves the function.
\<close>

fun build_loop :: "os_env \<Rightarrow> string \<Rightarrow> bool \<Rightarrow> path list \<Rightarrow> baseline \<Rightarrow> py_error + baseline" where
  "build_loop env algorithm track_perms [] b = Inr b"
| "build_loop env algorithm track_perms (fpath # rest) b =
     (case from_path env fpath algorithm track_perms of
        Inr info \<Rightarrow> build_loop env algorithm track_perms rest (fmupd (str_path fpath) info b)
      | Inl (OSError e) \<Rightarrow> build_loop env algorithm track_perms rest b
      | Inl e \<Rightarrow> Inl e)"

definition build_baseline :: "os_env \<Rightarrow> path list \<Rightarrow> string list \<Rightarrow> string \<Rightarrow> bool \<Rightarrow> bool \<Rightarrow> bool
    \<Rightarrow> py_error + baseline" where
  "build_baseline env paths excludes algorithm follow_symlinks ignore_hidden track_perms =
     (let roots = map (resolve env) paths
      in case iter_files env roots excludes follow_symlinks ignore_hidden of
           (files, err) \<Rightarrow>
             (case build_loop env algorithm track_perms files fmempty of
                Inl e \<Rightarrow> Inl e
              | Inr b \<Rightarrow> (case err of Some e \<Rightarrow> Inl e | None \<Rightarrow> Inr b)))"

section \<open>Diff engine\<close>

text \<open>\<^verbatim>\<open>d[k]\<close> raises \<^verbatim>\<open>KeyError\<close> on a missing key.\<close>

definition getitem :: "baseline \<Rightarrow> string \<Rightarrow> py_error + file_info" where
  "getitem d k = (case fmlookup d k of None \<Rightarrow> Inl (KeyError k) | Some v \<Rightarrow> Inr v)"

text \<open>\<^verbatim>\<open>sorted\<close> of a set of strings: code point order, which is the order of \<open>string\<close>.\<close>

definition sorted_py :: "string fset \<Rightarrow> string list" where
  "sorted_py s = sorted_list_of_fset s"

text \<open>The loop over the sorted common keys, with the two lists it appends to.\<close>

fun classify :: "baseline \<Rightarrow> baseline \<Rightarrow> bool \<Rightarrow> string list \<Rightarrow> string list \<times> string list
    \<Rightarrow> py_error + string list \<times> string list" where
  "classify prev cur strict_mtime [] acc = Inr acc"
| "classify prev cur strict_mtime (k # rest) (ms, mcs) =
     (case getitem prev k of
        Inl e \<Rightarrow> Inl e
      | Inr p \<Rightarrow>
          (case getitem cur k of
             Inl e \<Rightarrow> Inl e
           | Inr c \<Rightarrow>
               if hash p \<noteq> hash c
               then classify prev cur strict_mtime rest (ms @ [k], mcs)
               else if size_bytes p \<noteq> size_bytes c
                       \<or> (strict_mtime \<and> mtime p \<noteq> mtime c)
                       \<or> mode p \<noteq> mode c
                    then classify prev cur strict_mtime rest (ms, mcs @ [k])
                    else classify prev cur strict_mtime rest (ms, mcs)))"

record diff_result =
  added :: "string list"
  removed :: "string list"
  modified :: "string list"
  meta_changed :: "string list"

definition diff_states :: "baseline \<Rightarrow> baseline \<Rightarrow> bool \<Rightarrow> py_error + diff_result" where
  "diff_states prev cur strict_mtime =
     (let prev_keys = fmdom prev;
          cur_keys = fmdom cur
      in case classify prev cur strict_mtime (sorted_py (prev_keys |\<inter>| cur_keys)) ([], []) of
           Inl e \<Rightarrow> Inl e
         | Inr (ms, mcs) \<Rightarrow>
             Inr \<lparr>added = sorted_py (cur_keys |-| prev_keys),
                  removed = sorted_py (prev_keys |-| cur_keys),
                  modified = ms,
                  meta_changed = mcs\<rparr>)"

section \<open>The classification in the words of the specification\<close>

text \<open>
  The tests of the specification on a key of both baselines, each on its own; they are
  false for a key that one of the baselines lacks.
\<close>

definition hash_differs :: "baseline \<Rightarrow> baseline \<Rightarrow> string \<Rightarrow> bool" where
  "hash_differs prev cur k =
     (case (fmlookup prev k, fmlookup cur k) of
        (Some p, Some c) \<Rightarrow> hash p \<noteq> hash c
      | _ \<Rightarrow> False)"

definition size_differs :: "baseline \<Rightarrow> baseline \<Rightarrow> string \<Rightarrow> bool" where
  "size_differs prev cur k =
     (case (fmlookup prev k, fmlookup cur k) of
        (Some p, Some c) \<Rightarrow> size_bytes p \<noteq> size_bytes c
      | _ \<Rightarrow> False)"

definition mtime_differs :: "baseline \<Rightarrow> baseline \<Rightarrow> string \<Rightarrow> bool" where
  "mtime_differs prev cur k =
     (case (fmlookup prev k, fmlookup cur k) of
        (Some p, Some c) \<Rightarrow> mtime p \<noteq> mtime c
      | _ \<Rightarrow> False)"

definition mode_differs :: "baseline \<Rightarrow> baseline \<Rightarrow> string \<Rightarrow> bool" where
  "mode_differs prev cur k =
     (case (fmlookup prev k, fmlookup cur k) of
        (Some p, Some c) \<Rightarrow> mode p \<noteq> mode c
      | _ \<Rightarrow> False)"

definition meta_drift :: "baseline \<Rightarrow> baseline \<Rightarrow> bool \<Rightarrow> string \<Rightarrow> bool" where
  "meta_drift prev cur strict_mtime k =
     (\<not> hash_differs prev cur k \<and>
      (size_differs prev cur k
       \<or> (strict_mtime \<and> mtime_differs prev cur k)
       \<or> mode_differs prev cur k))"

subsection \<open>Outcomes of a fingerprint\<close>

text \<open>
  The two outcomes of a fingerprint that the builder survives: a record, and an
  \<^verbatim>\<open>OSError\<close> (permission denied, file not found, any other).
\<close>

definition fingerprint_ok :: "os_env \<Rightarrow> string \<Rightarrow> bool \<Rightarrow> path \<Rightarrow> bool" where
  "fingerprint_ok env algorithm track_perms f =
     (case from_path env f algorithm track_perms of Inr info \<Rightarrow> True | Inl e \<Rightarrow> False)"

definition fingerprint_io_error :: "os_env \<Rightarrow> string \<Rightarrow> bool \<Rightarrow> path \<Rightarrow> bool" where
  "fingerprint_io_error env algorithm track_perms f =
     (case from_path env f algorithm track_perms of
        Inr info \<Rightarrow> False
      | Inl e \<Rightarrow> (case e of OSError x \<Rightarrow> True | _ \<Rightarrow> False))"

section \<open>Concrete inputs\<close>

text \<open>
  A matcher for the patterns built from \<^verbatim>\<open>?\<close>, \<^verbatim>\<open>*\<close> and characters other than brackets,
  on which it agrees with \<^verbatim>\<open>fnmatch\<close>; a digest that returns what it was fed; and a
  small tree:
  \<^verbatim>\<open>
  /data/a.txt        readable
  /data/locked       listed, stat works, open fails with PermissionError
  /data/gone         listed, then missing for stat and open
  /data/.git/config  readable
  /data/sub/b.log    readable
  /.cfg/f            readable
  /.cfg/app/x        readable
  \<close>
\<close>

fun glob_match :: "string \<Rightarrow> string \<Rightarrow> bool" where
  "glob_match s [] = (s = [])"
| "glob_match s (p # ps) =
     (if p = CHR ''*''
      then glob_match s ps \<or> (case s of [] \<Rightarrow> False | c # cs \<Rightarrow> glob_match cs (p # ps))
      else (case s of [] \<Rightarrow> False | c # cs \<Rightarrow> (p = CHR ''?'' \<or> p = c) \<and> glob_match cs ps))"

definition plain_file :: "bytes \<Rightarrow> int \<Rightarrow> rat \<Rightarrow> node" where
  "plain_file content m t =
     Entry \<lparr>probe = Inr True,
            stat_outcome = Inr \<lparr>st_mode = m, st_size = int (length content), st_mtime = t\<rparr>,
            read_outcome = Inr content\<rparr>"

definition locked_file :: node where
  "locked_file =
     Entry \<lparr>probe = Inr True,
            stat_outcome = Inr \<lparr>st_mode = 32768, st_size = 7, st_mtime = 3\<rparr>,
            read_outcome = Inl PermissionError\<rparr>"

definition gone_file :: node where
  "gone_file =
     Entry \<lparr>probe = Inr True,
            stat_outcome = Inl FileNotFoundError,
            read_outcome = Inl FileNotFoundError\<rparr>"

definition ex_tree :: node where
  "ex_tree =
     Dir False
       [(''data'', Dir False
           [(''a.txt'', plain_file ''hello'' 33188 10),
            (''locked'', locked_file),
            (''gone'', gone_file),
            (''.git'', Dir False [(''config'', plain_file ''x'' 33188 11)]),
            (''sub'', Dir False [(''b.log'', plain_file ''log'' 33152 12)])]),
        (''.cfg'', Dir False
           [(''f'', plain_file ''secret'' 33188 13),
            (''app'', Dir False [(''x'', plain_file ''y'' 33188 14)])])]"

definition ex_hashlib :: "string \<Rightarrow> hasher option" where
  "ex_hashlib a =
     (if a = ''sha256'' then Some (FixedDigest (\<lambda>fed. fed))
      else if a = ''shake_128'' then Some XofDigest
      else None)"

definition ex_env :: os_env where
  "ex_env = \<lparr>fs_root = ex_tree, cwd = [], resolve = (\<lambda>p. p), fnmatch = glob_match,
             hashlib_new = ex_hashlib\<rparr>"

definition fi :: "string \<Rightarrow> int \<Rightarrow> rat \<Rightarrow> int option \<Rightarrow> file_info" where
  "fi h s t m = \<lparr>hash = h, size_bytes = s, mtime = t, mode = m\<rparr>"

section \<open>Diff engine: what the loop computes\<close>

lemma classify_filter:
  "\<forall>k \<in> set ks. k |\<in>| fmdom prev \<and> k |\<in>| fmdom cur \<Longrightarrow>
   classify prev cur s ks (ms, mcs) =
     Inr (ms @ filter (hash_differs prev cur) ks, mcs @ filter (meta_drift prev cur s) ks)"
proof (induction ks arbitrary: ms mcs)
  case Nil
  show ?case by simp
next
  case (Cons k ks)
  from Cons.prems obtain p c where pc: "fmlookup prev k = Some p" "fmlookup cur k = Some c"
    by (auto simp: fmlookup_dom_iff)
  have rest: "\<forall>k \<in> set ks. k |\<in>| fmdom prev \<and> k |\<in>| fmdom cur"
    using Cons.prems by simp
  show ?case
    using pc Cons.IH [OF rest]
    by (simp add: getitem_def hash_differs_def meta_drift_def size_differs_def
        mtime_differs_def mode_differs_def)
qed

lemma diff_states_eq:
  "diff_states prev cur s =
     Inr \<lparr>added = sorted_py (fmdom cur |-| fmdom prev),
          removed = sorted_py (fmdom prev |-| fmdom cur),
          modified = filter (hash_differs prev cur) (sorted_py (fmdom prev |\<inter>| fmdom cur)),
          meta_changed = filter (meta_drift prev cur s) (sorted_py (fmdom prev |\<inter>| fmdom cur))\<rparr>"
proof -
  have "\<forall>k \<in> set (sorted_py (fmdom prev |\<inter>| fmdom cur)). k |\<in>| fmdom prev \<and> k |\<in>| fmdom cur"
    by (simp add: sorted_py_def)
  from classify_filter [OF this] show ?thesis
    by (simp add: diff_states_def Let_def)
qed

lemma sorted_py_props:
  "sorted (sorted_py s)" "distinct (sorted_py s)" "set (sorted_py s) = fset s"
  by (simp_all add: sorted_py_def sorted_list_of_fset.rep_eq)

lemma hash_differs_sym: "hash_differs prev cur = hash_differs cur prev"
  by (auto simp: hash_differs_def fun_eq_iff split: option.splits)

lemma meta_drift_sym: "meta_drift prev cur s = meta_drift cur prev s"
  by (auto simp: meta_drift_def hash_differs_def size_differs_def mtime_differs_def
      mode_differs_def fun_eq_iff split: option.splits)

text \<open>
  C1. For every pair of baselines and every flag, \<open>diff_states\<close> returns a result \<open>d\<close>
  (it raises nothing). \<open>added d\<close> is the sorted, duplicate-free list of the keys of the
  current baseline that the previous one lacks, \<open>removed d\<close> that of the keys of the
  previous baseline that the current one lacks. With \<open>common\<close> the sorted, duplicate-free
  list of the keys of both, \<open>modified d\<close> is the sublist of \<open>common\<close>, in order, of the
  keys whose hashes differ, and \<open>meta_changed d\<close> the sublist of those whose hashes are
  equal and whose sizes differ, or whose mtimes differ under \<open>strict_mtime\<close>, or whose
  modes differ; two absent modes are equal values of \<open>int option\<close>.
\<close>

theorem diff_states_spec:
  "\<exists>d common. diff_states prev cur strict_mtime = Inr d
     \<and> sorted (added d) \<and> distinct (added d)
     \<and> set (added d) = fset (fmdom cur) - fset (fmdom prev)
     \<and> sorted (removed d) \<and> distinct (removed d)
     \<and> set (removed d) = fset (fmdom prev) - fset (fmdom cur)
     \<and> sorted common \<and> distinct common
     \<and> set common = fset (fmdom prev) \<inter> fset (fmdom cur)
     \<and> modified d = filter (hash_differs prev cur) common
     \<and> meta_changed d =
         filter (\<lambda>k. \<not> hash_differs prev cur k \<and>
                      (size_differs prev cur k
                       \<or> (strict_mtime \<and> mtime_differs prev cur k)
                       \<or> mode_differs prev cur k)) common"
proof -
  let ?common = "sorted_py (fmdom prev |\<inter>| fmdom cur)"
  let ?d = "\<lparr>added = sorted_py (fmdom cur |-| fmdom prev),
          removed = sorted_py (fmdom prev |-| fmdom cur),
          modified = filter (hash_differs prev cur) ?common,
          meta_changed = filter (meta_drift prev cur strict_mtime) ?common\<rparr>"
  have "meta_drift prev cur strict_mtime =
     (\<lambda>k. \<not> hash_differs prev cur k \<and>
                      (size_differs prev cur k
                       \<or> (strict_mtime \<and> mtime_differs prev cur k)
                       \<or> mode_differs prev cur k))"
    by (simp add: fun_eq_iff meta_drift_def)
  then show ?thesis
    using diff_states_eq [of prev cur strict_mtime]
    by (intro exI [of _ ?d] exI [of _ ?common]) (simp add: sorted_py_props)
qed

theorem diff_states_spec_witness:
  "\<exists>d. diff_states
          (fmap_of_list [(''/b'', fi ''aa'' 1 2 None), (''/a'', fi ''aa'' 1 2 None),
                         (''/e'', fi ''ee'' 1 2 None)])
          (fmap_of_list [(''/b'', fi ''aa'' 1 3 (Some 3)), (''/c'', fi ''aa'' 1 2 None),
                         (''/e'', fi ''ff'' 1 2 None)]) False = Inr d
     \<and> added d = [''/c''] \<and> removed d = [''/a'']
     \<and> modified d = [''/e''] \<and> meta_changed d = [''/b'']"
proof -
  let ?p = "fmap_of_list [(''/b'', fi ''aa'' 1 2 None), (''/a'', fi ''aa'' 1 2 None),
                         (''/e'', fi ''ee'' 1 2 None)]"
  let ?c = "fmap_of_list [(''/b'', fi ''aa'' 1 3 (Some 3)), (''/c'', fi ''aa'' 1 2 None),
                         (''/e'', fi ''ff'' 1 2 None)]"
  from diff_states_spec [of ?p ?c False] obtain d where d: "diff_states ?p ?c False = Inr d"
    by blast
  have "diff_states ?p ?c False =
      Inr \<lparr>added = [''/c''], removed = [''/a''], modified = [''/e''], meta_changed = [''/b'']\<rparr>"
    by code_simp
  with d show ?thesis by simp
qed

text \<open>
  C3. For every pair of baselines and every flag, no path occurs twice in one of the four
  sequences of \<open>diff_states\<close>, no path occurs in two of them, every path in them is a key
  of one of the baselines, and a key of both baselines with no triggering difference
  occurs in none.
\<close>

theorem diff_states_partition:
  "\<exists>d. diff_states prev cur strict_mtime = Inr d
     \<and> distinct (added d) \<and> distinct (removed d)
     \<and> distinct (modified d) \<and> distinct (meta_changed d)
     \<and> set (added d) \<inter> set (removed d) = {}
     \<and> set (added d) \<inter> set (modified d) = {}
     \<and> set (added d) \<inter> set (meta_changed d) = {}
     \<and> set (removed d) \<inter> set (modified d) = {}
     \<and> set (removed d) \<inter> set (meta_changed d) = {}
     \<and> set (modified d) \<inter> set (meta_changed d) = {}
     \<and> set (added d) \<union> set (removed d) \<union> set (modified d) \<union> set (meta_changed d)
         \<subseteq> fset (fmdom prev) \<union> fset (fmdom cur)
     \<and> (\<forall>k. k |\<in>| fmdom prev \<and> k |\<in>| fmdom cur
            \<and> \<not> hash_differs prev cur k \<and> \<not> size_differs prev cur k
            \<and> \<not> (strict_mtime \<and> mtime_differs prev cur k) \<and> \<not> mode_differs prev cur k
          \<longrightarrow> k \<notin> set (added d) \<union> set (removed d) \<union> set (modified d)
                  \<union> set (meta_changed d))"
proof -
  let ?common = "sorted_py (fmdom prev |\<inter>| fmdom cur)"
  let ?d = "\<lparr>added = sorted_py (fmdom cur |-| fmdom prev),
          removed = sorted_py (fmdom prev |-| fmdom cur),
          modified = filter (hash_differs prev cur) ?common,
          meta_changed = filter (meta_drift prev cur strict_mtime) ?common\<rparr>"
  have eq: "diff_states prev cur strict_mtime = Inr ?d"
    by (rule diff_states_eq)
  have dist: "distinct (added ?d)" "distinct (removed ?d)"
    "distinct (modified ?d)" "distinct (meta_changed ?d)"
    by (simp_all add: sorted_py_props)
  have disj1: "set (added ?d) \<inter> set (removed ?d) = {}"
    "set (added ?d) \<inter> set (modified ?d) = {}"
    "set (added ?d) \<inter> set (meta_changed ?d) = {}"
    by (auto simp: sorted_py_props)
  have disj2: "set (removed ?d) \<inter> set (modified ?d) = {}"
    "set (removed ?d) \<inter> set (meta_changed ?d) = {}"
    "set (modified ?d) \<inter> set (meta_changed ?d) = {}"
    by (auto simp: sorted_py_props meta_drift_def)
  have sub: "set (added ?d) \<union> set (removed ?d) \<union> set (modified ?d) \<union> set (meta_changed ?d)
         \<subseteq> fset (fmdom prev) \<union> fset (fmdom cur)"
    by (auto simp: sorted_py_props)
  have none: "\<forall>k. k |\<in>| fmdom prev \<and> k |\<in>| fmdom cur
            \<and> \<not> hash_differs prev cur k \<and> \<not> size_differs prev cur k
            \<and> \<not> (strict_mtime \<and> mtime_differs prev cur k) \<and> \<not> mode_differs prev cur k
          \<longrightarrow> k \<notin> set (added ?d) \<union> set (removed ?d) \<union> set (modified ?d)
                  \<union> set (meta_changed ?d)"
    by (auto simp: sorted_py_props meta_drift_def)
  show ?thesis
    using eq dist disj1 disj2 sub none by (intro exI [of _ ?d] conjI)
qed

theorem diff_states_partition_witness:
  "\<exists>d. diff_states
          (fmap_of_list [(''/b'', fi ''aa'' 1 2 None), (''/a'', fi ''aa'' 1 2 None),
                         (''/u'', fi ''uu'' 1 2 None)])
          (fmap_of_list [(''/b'', fi ''aa'' 1 3 (Some 3)), (''/c'', fi ''aa'' 1 2 None),
                         (''/u'', fi ''uu'' 1 7 None)]) False = Inr d
     \<and> ''/u'' \<notin> set (added d) \<union> set (removed d) \<union> set (modified d) \<union> set (meta_changed d)
     \<and> set (modified d) \<inter> set (meta_changed d) = {}"
proof -
  let ?p = "fmap_of_list [(''/b'', fi ''aa'' 1 2 None), (''/a'', fi ''aa'' 1 2 None),
                         (''/u'', fi ''uu'' 1 2 None)]"
  let ?c = "fmap_of_list [(''/b'', fi ''aa'' 1 3 (Some 3)), (''/c'', fi ''aa'' 1 2 None),
                         (''/u'', fi ''uu'' 1 7 None)]"
  have h: "''/u'' |\<in>| fmdom ?p \<and> ''/u'' |\<in>| fmdom ?c
            \<and> \<not> hash_differs ?p ?c ''/u'' \<and> \<not> size_differs ?p ?c ''/u''
            \<and> \<not> (False \<and> mtime_differs ?p ?c ''/u'') \<and> \<not> mode_differs ?p ?c ''/u''"
    by code_simp
  from diff_states_partition [of ?p ?c False] show ?thesis
  proof (elim exE conjE)
    fix d
    assume ret: "diff_states ?p ?c False = Inr d"
      and disj: "set (modified d) \<inter> set (meta_changed d) = {}"
      and none: "\<forall>k. k |\<in>| fmdom ?p \<and> k |\<in>| fmdom ?c
            \<and> \<not> hash_differs ?p ?c k \<and> \<not> size_differs ?p ?c k
            \<and> \<not> (False \<and> mtime_differs ?p ?c k) \<and> \<not> mode_differs ?p ?c k
          \<longrightarrow> k \<notin> set (added d) \<union> set (removed d) \<union> set (modified d)
                  \<union> set (meta_changed d)"
    from none [THEN spec, THEN mp, OF h]
    have "''/u'' \<notin> set (added d) \<union> set (removed d) \<union> set (modified d)
        \<union> set (meta_changed d)" .
    with ret disj show ?thesis
      by (intro exI [of _ d] conjI)
  qed
qed

text \<open>
  C4, as the specification states it, fails: a path of both baselines with equal hashes
  and sizes and different mtimes is in \<open>meta_changed\<close> without \<open>strict_mtime\<close> when the
  modes differ.
\<close>

theorem strict_mtime_gating_counterexample:
  "fmlookup (fmap_of_list [(''/f'', fi ''aa'' 5 1 (Some 420))]) ''/f'' = Some (fi ''aa'' 5 1 (Some 420))
   \<and> fmlookup (fmap_of_list [(''/f'', fi ''aa'' 5 2 (Some 384))]) ''/f'' = Some (fi ''aa'' 5 2 (Some 384))
   \<and> hash (fi ''aa'' 5 1 (Some 420)) = hash (fi ''aa'' 5 2 (Some 384))
   \<and> size_bytes (fi ''aa'' 5 1 (Some 420)) = size_bytes (fi ''aa'' 5 2 (Some 384))
   \<and> mtime (fi ''aa'' 5 1 (Some 420)) \<noteq> mtime (fi ''aa'' 5 2 (Some 384))
   \<and> diff_states (fmap_of_list [(''/f'', fi ''aa'' 5 1 (Some 420))])
        (fmap_of_list [(''/f'', fi ''aa'' 5 2 (Some 384))]) False
       = Inr \<lparr>added = [], removed = [], modified = [], meta_changed = [''/f'']\<rparr>"
  by code_simp

text \<open>
  C4, amended. For every path of both baselines whose two records have equal hashes,
  equal sizes and equal modes (both absent, or both present with the same bits) and
  different mtimes, \<open>diff_states\<close> puts the path in \<open>meta_changed\<close> if and only if
  \<open>strict_mtime\<close> is true.
\<close>

theorem strict_mtime_gating:
  assumes "fmlookup prev k = Some p" and "fmlookup cur k = Some c"
    and "hash p = hash c" and "size_bytes p = size_bytes c" and "mode p = mode c"
    and "mtime p \<noteq> mtime c"
  shows "\<exists>d. diff_states prev cur strict_mtime = Inr d
           \<and> (k \<in> set (meta_changed d) \<longleftrightarrow> strict_mtime)"
proof -
  have dom: "k |\<in>| fmdom prev" "k |\<in>| fmdom cur"
    using assms(1,2) by (simp_all add: fmlookup_dom_iff)
  have "meta_drift prev cur strict_mtime k \<longleftrightarrow> strict_mtime"
    using assms
    by (simp add: meta_drift_def hash_differs_def size_differs_def mtime_differs_def
        mode_differs_def)
  then show ?thesis
    using dom by (simp add: diff_states_eq sorted_py_props)
qed

theorem strict_mtime_gating_witness:
  "(\<exists>d. diff_states (fmap_of_list [(''/f'', fi ''aa'' 5 1 (Some 420))])
          (fmap_of_list [(''/f'', fi ''aa'' 5 2 (Some 420))]) True = Inr d
        \<and> ''/f'' \<in> set (meta_changed d))
   \<and> (\<exists>d. diff_states (fmap_of_list [(''/f'', fi ''aa'' 5 1 (Some 420))])
          (fmap_of_list [(''/f'', fi ''aa'' 5 2 (Some 420))]) False = Inr d
        \<and> ''/f'' \<notin> set (meta_changed d))"
proof -
  let ?p = "fmap_of_list [(''/f'', fi ''aa'' 5 1 (Some 420))]"
  let ?c = "fmap_of_list [(''/f'', fi ''aa'' 5 2 (Some 420))]"
  let ?fp = "fi ''aa'' 5 1 (Some 420)"
  let ?fc = "fi ''aa'' 5 2 (Some 420)"
  have h1: "fmlookup ?p ''/f'' = Some ?fp" by code_simp
  have h2: "fmlookup ?c ''/f'' = Some ?fc" by code_simp
  have h3: "hash ?fp = hash ?fc" by code_simp
  have h4: "size_bytes ?fp = size_bytes ?fc" by code_simp
  have h5: "mode ?fp = mode ?fc" by code_simp
  have h6: "mtime ?fp \<noteq> mtime ?fc" by code_simp
  from strict_mtime_gating [OF h1 h2 h3 h4 h5 h6, of True]
    strict_mtime_gating [OF h1 h2 h3 h4 h5 h6, of False]
  show ?thesis by simp
qed

text \<open>
  C8. For any two baselines and any flag, both calls return; the \<open>added\<close> sequence of
  \<open>diff_states a b\<close> is the \<open>removed\<close> sequence of \<open>diff_states b a\<close>, and the \<open>removed\<close>
  sequence of the first is the \<open>added\<close> sequence of the second.
\<close>

theorem diff_states_swap_added_removed:
  "\<exists>d1 d2. diff_states a b strict_mtime = Inr d1 \<and> diff_states b a strict_mtime = Inr d2
     \<and> added d1 = removed d2 \<and> removed d1 = added d2"
  by (simp add: diff_states_eq)

theorem diff_states_swap_added_removed_witness:
  "\<exists>d1 d2. diff_states (fmap_of_list [(''/a'', fi ''aa'' 1 2 None)])
              (fmap_of_list [(''/c'', fi ''cc'' 1 2 None)]) True = Inr d1
     \<and> diff_states (fmap_of_list [(''/c'', fi ''cc'' 1 2 None)])
              (fmap_of_list [(''/a'', fi ''aa'' 1 2 None)]) True = Inr d2
     \<and> added d1 = removed d2 \<and> removed d1 = added d2 \<and> added d1 = [''/c'']"
proof -
  let ?a = "fmap_of_list [(''/a'', fi ''aa'' 1 2 None)]"
  let ?b = "fmap_of_list [(''/c'', fi ''cc'' 1 2 None)]"
  have "diff_states ?a ?b True =
      Inr \<lparr>added = [''/c''], removed = [''/a''], modified = [], meta_changed = []\<rparr>"
    by code_simp
  with diff_states_swap_added_removed [of ?a ?b True] show ?thesis
    by auto
qed

text \<open>
  C10. For any two baselines and any flag, both calls return, with the same \<open>modified\<close>
  sequence and the same \<open>meta_changed\<close> sequence: the tests on the hash, the size, the
  mtime and the mode are inequalities, symmetric in the two records.
\<close>

theorem diff_states_swap_modified_meta:
  "\<exists>d1 d2. diff_states a b strict_mtime = Inr d1 \<and> diff_states b a strict_mtime = Inr d2
     \<and> modified d1 = modified d2 \<and> meta_changed d1 = meta_changed d2"
  using hash_differs_sym [of a b] meta_drift_sym [of a b strict_mtime]
  by (simp add: diff_states_eq inf_commute)

theorem diff_states_swap_modified_meta_witness:
  "\<exists>d1 d2. diff_states (fmap_of_list [(''/a'', fi ''aa'' 1 2 None), (''/b'', fi ''bb'' 1 2 None)])
              (fmap_of_list [(''/a'', fi ''xx'' 1 2 None), (''/b'', fi ''bb'' 2 2 None)]) True = Inr d1
     \<and> diff_states (fmap_of_list [(''/a'', fi ''xx'' 1 2 None), (''/b'', fi ''bb'' 2 2 None)])
              (fmap_of_list [(''/a'', fi ''aa'' 1 2 None), (''/b'', fi ''bb'' 1 2 None)]) True = Inr d2
     \<and> modified d1 = modified d2 \<and> meta_changed d1 = meta_changed d2
     \<and> modified d1 = [''/a''] \<and> meta_changed d1 = [''/b'']"
proof -
  let ?a = "fmap_of_list [(''/a'', fi ''aa'' 1 2 None), (''/b'', fi ''bb'' 1 2 None)]"
  let ?b = "fmap_of_list [(''/a'', fi ''xx'' 1 2 None), (''/b'', fi ''bb'' 2 2 None)]"
  have "diff_states ?a ?b True =
      Inr \<lparr>added = [], removed = [], modified = [''/a''], meta_changed = [''/b'']\<rparr>"
    by code_simp
  with diff_states_swap_modified_meta [of ?a ?b True] show ?thesis
    by auto
qed

section \<open>Exclusion matcher: what the test decides\<close>

lemma exclude_roots_iff:
  "exclude_roots env p patterns roots \<longleftrightarrow>
     (\<exists>r \<in> set roots. \<exists>rel. relative_to p r = Inr rel \<and> match_any env patterns (str_path rel))"
  by (induction roots) (auto split: sum.splits)

lemma match_any_iff: "match_any env patterns s \<longleftrightarrow> (\<exists>pat \<in> set patterns. fnmatch env s pat)"
  by (simp add: match_any_def list_ex_iff)

text \<open>
  C5. For every path, every list of patterns and every list of roots, \<open>should_exclude\<close>
  is true if and only if some pattern matches the string of the path, or its base name,
  or the string of the path taken relative to a root for which \<open>relative_to\<close> succeeds,
  that is, a root under which the path lies. With no pattern it is false.
\<close>

theorem should_exclude_iff:
  "(should_exclude env p patterns roots \<longleftrightarrow>
      (\<exists>pat \<in> set patterns.
          fnmatch env (str_path p) pat
        \<or> fnmatch env (name_path p) pat
        \<or> (\<exists>r \<in> set roots. \<exists>rel. relative_to p r = Inr rel \<and> fnmatch env (str_path rel) pat)))
   \<and> should_exclude env p [] roots = False"
proof
  show "should_exclude env p patterns roots \<longleftrightarrow>
      (\<exists>pat \<in> set patterns.
          fnmatch env (str_path p) pat
        \<or> fnmatch env (name_path p) pat
        \<or> (\<exists>r \<in> set roots. \<exists>rel. relative_to p r = Inr rel \<and> fnmatch env (str_path rel) pat))"
  proof (cases "patterns = []")
    case True
    then show ?thesis by (simp add: should_exclude_def)
  next
    case False
    then have "should_exclude env p patterns roots \<longleftrightarrow>
        match_any env patterns (name_path p) \<or> match_any env patterns (str_path p)
        \<or> exclude_roots env p patterns roots"
      by (simp add: should_exclude_def Let_def)
    then show ?thesis
      unfolding exclude_roots_iff match_any_iff by blast
  qed
next
  show "should_exclude env p [] roots = False"
    by (simp add: should_exclude_def)
qed

theorem should_exclude_iff_witness:
  "should_exclude ex_env [''/'', ''data'', ''sub'', ''b.log''] [''*.tmp'', ''sub/*'']
      [[''/'', ''etc''], [''/'', ''data'']]
   \<and> relative_to [''/'', ''data'', ''sub'', ''b.log''] [''/'', ''data''] = Inr [''sub'', ''b.log'']
   \<and> fnmatch ex_env (str_path [''sub'', ''b.log'']) ''sub/*''
   \<and> \<not> should_exclude ex_env [''/'', ''data'', ''sub'', ''b.log''] [''*.tmp'', ''sub/*'']
      [[''/'', ''etc'']]"
proof -
  let ?p = "[''/'', ''data'', ''sub'', ''b.log'']"
  let ?pats = "[''*.tmp'', ''sub/*'']"
  have rel: "relative_to ?p [''/'', ''data''] = Inr [''sub'', ''b.log'']"
    by code_simp
  have m: "fnmatch ex_env (str_path [''sub'', ''b.log'']) ''sub/*''"
    by code_simp
  have "\<exists>pat \<in> set ?pats.
          fnmatch ex_env (str_path ?p) pat
        \<or> fnmatch ex_env (name_path ?p) pat
        \<or> (\<exists>r \<in> set [[''/'', ''etc''], [''/'', ''data'']].
              \<exists>rel. relative_to ?p r = Inr rel \<and> fnmatch ex_env (str_path rel) pat)"
    using rel m by auto
  then have yes: "should_exclude ex_env ?p ?pats [[''/'', ''etc''], [''/'', ''data'']]"
    using should_exclude_iff [of ex_env ?p ?pats "[[''/'', ''etc''], [''/'', ''data'']]"]
    by blast
  have no: "\<not> should_exclude ex_env ?p ?pats [[''/'', ''etc'']]"
    by code_simp
  from yes rel m no show ?thesis by blast
qed

section \<open>Fingerprint extractor and baseline builder: errors\<close>

lemma hash_file_unsupported:
  "hashlib_new env algorithm = None \<Longrightarrow>
   hash_file env p algorithm = Inl (ValueError (''Unsupported hash algorithm: '' @ algorithm))"
  by (simp add: hash_file_def)

lemma from_path_unsupported:
  "hashlib_new env algorithm = None \<Longrightarrow>
   from_path env p algorithm tp =
     (case stat env p of
        Inl e \<Rightarrow> Inl (OSError e)
      | Inr st \<Rightarrow> Inl (ValueError (''Unsupported hash algorithm: '' @ algorithm)))"
  by (simp add: from_path_def hash_file_unsupported split: sum.splits)

lemma build_loop_unsupported:
  "hashlib_new env algorithm = None \<Longrightarrow>
   build_loop env algorithm tp files b =
     (if \<exists>f \<in> set files. \<exists>st. stat env f = Inr st
      then Inl (ValueError (''Unsupported hash algorithm: '' @ algorithm))
      else Inr b)"
proof (induction files arbitrary: b)
  case Nil
  show ?case by simp
next
  case (Cons f files)
  show ?case
  proof (cases "stat env f")
    case (Inl e)
    then show ?thesis
      using Cons by (simp add: from_path_unsupported)
  next
    case (Inr st)
    then show ?thesis
      using Cons.prems by (simp add: from_path_unsupported)
  qed
qed

text \<open>
  C2. For every path and every algorithm name that \<^verbatim>\<open>hashlib.new\<close> rejects, \<open>hash_file\<close>
  fails with the \<^verbatim>\<open>ValueError\<close> and \<open>from_path\<close> fails (with the \<^verbatim>\<open>OSError\<close> of
  \<^verbatim>\<open>stat\<close> when the path cannot be examined, with the \<^verbatim>\<open>ValueError\<close> otherwise): neither
  returns a record. \<open>build_baseline\<close> does not catch the \<^verbatim>\<open>ValueError\<close>: when the walker
  yields a file that \<^verbatim>\<open>stat\<close> can examine, \<open>build_baseline\<close> fails with it, and in no case
  does it return a baseline with an entry.
\<close>

theorem unsupported_algorithm_propagates:
  assumes "hashlib_new env algorithm = None"
  shows "hash_file env p algorithm = Inl (ValueError (''Unsupported hash algorithm: '' @ algorithm))
    \<and> (\<exists>e. from_path env p algorithm track_perms = Inl e)
    \<and> ((\<exists>f \<in> set (fst (iter_files env (map (resolve env) paths) excludes follow_symlinks
                          ignore_hidden)). \<exists>st. stat env f = Inr st)
        \<longrightarrow> build_baseline env paths excludes algorithm follow_symlinks ignore_hidden track_perms
              = Inl (ValueError (''Unsupported hash algorithm: '' @ algorithm)))
    \<and> (\<forall>b. build_baseline env paths excludes algorithm follow_symlinks ignore_hidden track_perms
              = Inr b \<longrightarrow> b = fmempty)"
proof (intro conjI)
  show "hash_file env p algorithm = Inl (ValueError (''Unsupported hash algorithm: '' @ algorithm))"
    using assms by (rule hash_file_unsupported)
  show "\<exists>e. from_path env p algorithm track_perms = Inl e"
    using assms by (simp add: from_path_unsupported split: sum.splits)
  obtain files err where it:
    "iter_files env (map (resolve env) paths) excludes follow_symlinks ignore_hidden = (files, err)"
    by (cases "iter_files env (map (resolve env) paths) excludes follow_symlinks ignore_hidden")
  show "(\<exists>f \<in> set (fst (iter_files env (map (resolve env) paths) excludes follow_symlinks
                          ignore_hidden)). \<exists>st. stat env f = Inr st)
        \<longrightarrow> build_baseline env paths excludes algorithm follow_symlinks ignore_hidden track_perms
              = Inl (ValueError (''Unsupported hash algorithm: '' @ algorithm))"
    using it by (simp add: build_baseline_def Let_def build_loop_unsupported [OF assms])
  show "\<forall>b. build_baseline env paths excludes algorithm follow_symlinks ignore_hidden track_perms
              = Inr b \<longrightarrow> b = fmempty"
    using it
    by (auto simp: build_baseline_def Let_def build_loop_unsupported [OF assms]
        split: if_splits option.splits)
qed

theorem unsupported_algorithm_propagates_witness:
  "hashlib_new ex_env ''md6'' = None
   \<and> [''/'', ''data'', ''a.txt''] \<in> set (fst (iter_files ex_env (map (resolve ex_env) [[''/'', ''data'']])
        [] False True))
   \<and> hash_file ex_env [''/'', ''data'', ''a.txt''] ''md6''
       = Inl (ValueError ''Unsupported hash algorithm: md6'')
   \<and> build_baseline ex_env [[''/'', ''data'']] [] ''md6'' False True False
       = Inl (ValueError ''Unsupported hash algorithm: md6'')
   \<and> iter_files ex_env (map (resolve ex_env) [[''/'', ''data'', ''gone'']]) [] False True
       = ([[''/'', ''data'', ''gone'']], None)
   \<and> stat ex_env [''/'', ''data'', ''gone''] = Inl FileNotFoundError
   \<and> build_baseline ex_env [[''/'', ''data'', ''gone'']] [] ''md6'' False True False
       = Inr fmempty"
proof -
  let ?f = "[''/'', ''data'', ''a.txt'']"
  let ?g = "[''/'', ''data'', ''gone'']"
  let ?bg = "build_baseline ex_env [?g] [] ''md6'' False True False"
  have h: "hashlib_new ex_env ''md6'' = None"
    by code_simp
  have y: "?f \<in> set (fst (iter_files ex_env (map (resolve ex_env) [[''/'', ''data'']])
        [] False True))"
    by code_simp
  have s: "stat ex_env ?f = Inr \<lparr>st_mode = 33188, st_size = 5, st_mtime = 10\<rparr>"
    by code_simp
  from y s have ex: "\<exists>f \<in> set (fst (iter_files ex_env (map (resolve ex_env) [[''/'', ''data'']])
        [] False True)). \<exists>st. stat ex_env f = Inr st"
    by (intro bexI [of _ ?f] exI)
  note inst = unsupported_algorithm_propagates
    [OF h, of ?f False "[[''/'', ''data'']]" "[]" False True]
  from inst have hf: "hash_file ex_env ?f ''md6''
      = Inl (ValueError (''Unsupported hash algorithm: '' @ ''md6''))" ..
  from inst [THEN conjunct2, THEN conjunct2, THEN conjunct1, THEN mp, OF ex]
  have bb: "build_baseline ex_env [[''/'', ''data'']] [] ''md6'' False True False
      = Inl (ValueError (''Unsupported hash algorithm: '' @ ''md6''))" .
  have ap: "''Unsupported hash algorithm: '' @ ''md6'' = ''Unsupported hash algorithm: md6''"
    by code_simp
  have yg: "iter_files ex_env (map (resolve ex_env) [?g]) [] False True = ([?g], None)"
    by code_simp
  have sg: "stat ex_env ?g = Inl FileNotFoundError"
    by code_simp
  have "case ?bg of Inl e \<Rightarrow> False | Inr b \<Rightarrow> True"
    by code_simp
  then obtain b where b: "?bg = Inr b"
    by (cases ?bg) simp_all
  from unsupported_algorithm_propagates
    [OF h, of ?g False "[?g]" "[]" False True, THEN conjunct2, THEN conjunct2, THEN conjunct2,
     THEN spec, THEN mp, OF b]
  have "b = fmempty" .
  with b have bg: "?bg = Inr fmempty"
    by simp
  from h y hf [unfolded ap] bb [unfolded ap] yg sg bg show ?thesis
    by (intro conjI)
qed

section \<open>Fingerprint extractor: the read loop\<close>

text \<open>Reading in chunks feeds the digest the whole content, whatever had been fed before.\<close>

lemma read_loop_eq [code]: "read_loop remaining fed = fed @ remaining"
proof (induction remaining fed rule: read_loop.induct)
  case (1 remaining fed)
  show ?case
  proof (cases "take CHUNK_SIZE remaining = []")
    case True
    then have "remaining = []"
      by (simp add: CHUNK_SIZE_def)
    then show ?thesis
      by (subst read_loop.simps) simp
  next
    case False
    from "1.IH" [OF refl False]
    have "read_loop (drop CHUNK_SIZE remaining) (fed @ take CHUNK_SIZE remaining)
        = (fed @ take CHUNK_SIZE remaining) @ drop CHUNK_SIZE remaining" .
    with False show ?thesis
      by (subst read_loop.simps) (simp add: Let_def)
  qed
qed

section \<open>Baseline builder: skipped files\<close>

lemma from_path_fixed_digest:
  "hashlib_new env algorithm = Some (FixedDigest h) \<Longrightarrow>
   fingerprint_ok env algorithm tp f \<or> fingerprint_io_error env algorithm tp f"
  by (simp add: fingerprint_ok_def fingerprint_io_error_def from_path_def hash_file_def
      hexdigest_def split: sum.splits)

lemma build_loop_Cons_ok:
  "from_path env f algorithm tp = Inr info \<Longrightarrow>
   build_loop env algorithm tp (f # files) b
     = build_loop env algorithm tp files (fmupd (str_path f) info b)"
  by simp

lemma build_loop_Cons_io:
  "from_path env f algorithm tp = Inl (OSError e) \<Longrightarrow>
   build_loop env algorithm tp (f # files) b = build_loop env algorithm tp files b"
  by simp

lemma build_loop_Cons_Inr:
  assumes "build_loop env algorithm tp (f # files) b = Inr b'"
  shows "(\<exists>info. from_path env f algorithm tp = Inr info
            \<and> build_loop env algorithm tp files (fmupd (str_path f) info b) = Inr b')
       \<or> (\<exists>e. from_path env f algorithm tp = Inl (OSError e)
            \<and> build_loop env algorithm tp files b = Inr b')"
proof (cases "from_path env f algorithm tp")
  case (Inr info)
  with assms show ?thesis by simp
next
  case (Inl err)
  with assms show ?thesis by (cases err) simp_all
qed

lemma fingerprint_ok_iff:
  "fingerprint_ok env algorithm tp f \<longleftrightarrow> (\<exists>info. from_path env f algorithm tp = Inr info)"
  by (cases "from_path env f algorithm tp") (simp_all add: fingerprint_ok_def)

lemma fingerprint_io_error_iff:
  "fingerprint_io_error env algorithm tp f \<longleftrightarrow> (\<exists>e. from_path env f algorithm tp = Inl (OSError e))"
proof (cases "from_path env f algorithm tp")
  case (Inr info)
  then show ?thesis by (simp add: fingerprint_io_error_def)
next
  case (Inl err)
  then show ?thesis by (cases err) (simp_all add: fingerprint_io_error_def)
qed

lemma build_loop_returns:
  "\<forall>f \<in> set files. fingerprint_ok env algorithm tp f \<or> fingerprint_io_error env algorithm tp f \<Longrightarrow>
   \<exists>b'. build_loop env algorithm tp files b = Inr b'"
proof (induction files arbitrary: b)
  case Nil
  show ?case by simp
next
  case (Cons f files)
  from Cons.prems have rest:
    "\<forall>f \<in> set files. fingerprint_ok env algorithm tp f \<or> fingerprint_io_error env algorithm tp f"
    by simp
  from Cons.prems have "fingerprint_ok env algorithm tp f \<or> fingerprint_io_error env algorithm tp f"
    by simp
  then consider info where "from_path env f algorithm tp = Inr info"
    | e where "from_path env f algorithm tp = Inl (OSError e)"
    unfolding fingerprint_ok_iff fingerprint_io_error_iff by blast
  then show ?case
  proof cases
    case 1
    from Cons.IH [OF rest, of "fmupd (str_path f) info b"] show ?thesis
      unfolding build_loop_Cons_ok [OF 1] .
  next
    case 2
    from Cons.IH [OF rest, of b] show ?thesis
      unfolding build_loop_Cons_io [OF 2] .
  qed
qed

lemma build_loop_dom:
  "build_loop env algorithm tp files b = Inr b' \<Longrightarrow>
   fset (fmdom b') =
     fset (fmdom b) \<union> str_path ` set (filter (fingerprint_ok env algorithm tp) files)"
proof (induction files arbitrary: b)
  case Nil
  then show ?case by simp
next
  case (Cons f files)
  from build_loop_Cons_Inr [OF Cons.prems] show ?case
  proof (elim disjE exE conjE)
    fix info
    assume fp: "from_path env f algorithm tp = Inr info"
      and rest: "build_loop env algorithm tp files (fmupd (str_path f) info b) = Inr b'"
    have ok: "fingerprint_ok env algorithm tp f"
      using fp by (simp add: fingerprint_ok_def)
    from Cons.IH [OF rest] ok show ?thesis by simp
  next
    fix e
    assume fp: "from_path env f algorithm tp = Inl (OSError e)"
      and rest: "build_loop env algorithm tp files b = Inr b'"
    have ok: "\<not> fingerprint_ok env algorithm tp f"
      using fp by (simp add: fingerprint_ok_def)
    from Cons.IH [OF rest] ok show ?thesis by simp
  qed
qed

lemma build_loop_other_keys:
  "build_loop env algorithm tp files b = Inr b' \<Longrightarrow> \<forall>f \<in> set files. str_path f \<noteq> k \<Longrightarrow>
   fmlookup b' k = fmlookup b k"
proof (induction files arbitrary: b)
  case Nil
  then show ?case by simp
next
  case (Cons f files)
  from Cons.prems(2) have rest: "\<forall>f \<in> set files. str_path f \<noteq> k" and here: "str_path f \<noteq> k"
    by simp_all
  from build_loop_Cons_Inr [OF Cons.prems(1)] show ?case
  proof (elim disjE exE conjE)
    fix info
    assume "build_loop env algorithm tp files (fmupd (str_path f) info b) = Inr b'"
    from Cons.IH [OF this rest] here show ?thesis by simp
  next
    assume "build_loop env algorithm tp files b = Inr b'"
    from Cons.IH [OF this rest] show ?thesis .
  qed
qed

lemma build_loop_lookup:
  "build_loop env algorithm tp files b = Inr b' \<Longrightarrow> f \<in> set files \<Longrightarrow>
   from_path env f algorithm tp = Inr info \<Longrightarrow>
   \<forall>g \<in> set files. str_path g = str_path f \<longrightarrow> g = f \<Longrightarrow>
   fmlookup b' (str_path f) = Some info"
proof (induction files arbitrary: b)
  case Nil
  then show ?case by simp
next
  case (Cons x files)
  from Cons.prems(4) have uniq: "\<forall>g \<in> set files. str_path g = str_path f \<longrightarrow> g = f"
    by simp
  show ?case
  proof (cases "f \<in> set files")
    case True
    from build_loop_Cons_Inr [OF Cons.prems(1)] show ?thesis
    proof (elim disjE exE conjE)
      fix i
      assume "build_loop env algorithm tp files (fmupd (str_path x) i b) = Inr b'"
      from Cons.IH [OF this True Cons.prems(3) uniq] show ?thesis .
    next
      assume "build_loop env algorithm tp files b = Inr b'"
      from Cons.IH [OF this True Cons.prems(3) uniq] show ?thesis .
    qed
  next
    case False
    with Cons.prems(2) have fx: "x = f" by simp
    from False uniq have other: "\<forall>g \<in> set files. str_path g \<noteq> str_path f"
      by blast
    from Cons.prems(1) have "build_loop env algorithm tp files (fmupd (str_path f) info b) = Inr b'"
      unfolding fx build_loop_Cons_ok [OF Cons.prems(3)] .
    from build_loop_other_keys [OF this other] show ?thesis by simp
  qed
qed

lemma build_loop_skip:
  "from_path env f algorithm tp = Inl (OSError e) \<Longrightarrow>
   build_loop env algorithm tp (pre @ f # post) b = build_loop env algorithm tp (pre @ post) b"
proof (induction pre arbitrary: b)
  case Nil
  then show ?case by simp
next
  case (Cons x pre)
  show ?case
  proof (cases "from_path env x algorithm tp")
    case (Inr info)
    then show ?thesis using Cons.IH [OF Cons.prems] by simp
  next
    case (Inl err)
    then show ?thesis using Cons.IH [OF Cons.prems] by (cases err) simp_all
  qed
qed

lemma build_loop_error:
  "build_loop env algorithm tp files b = Inl err \<Longrightarrow>
   \<exists>f \<in> set files. from_path env f algorithm tp = Inl err
                  \<and> \<not> fingerprint_io_error env algorithm tp f"
proof (induction files arbitrary: b)
  case Nil
  then show ?case by simp
next
  case (Cons x files)
  show ?case
  proof (cases "from_path env x algorithm tp")
    case (Inr info)
    with Cons.prems have "build_loop env algorithm tp files (fmupd (str_path x) info b) = Inl err"
      by simp
    from Cons.IH [OF this] show ?thesis by auto
  next
    case (Inl e)
    show ?thesis
    proof (cases "fingerprint_io_error env algorithm tp x")
      case True
      then obtain y where "from_path env x algorithm tp = Inl (OSError y)"
        unfolding fingerprint_io_error_iff ..
      with Cons.prems have "build_loop env algorithm tp files b = Inl err"
        by simp
      from Cons.IH [OF this] show ?thesis by auto
    next
      case False
      with Inl have "\<forall>y. e \<noteq> OSError y"
        by (auto simp: fingerprint_io_error_iff)
      with Inl Cons.prems have "e = err"
        by (cases e) simp_all
      with Inl False show ?thesis by simp
    qed
  qed
qed

text \<open>
  C7, as the specification states it, fails: the \<^verbatim>\<open>except\<close> clause of \<open>build_baseline\<close>
  names \<^verbatim>\<open>OSError\<close> classes only. With the roots \<^verbatim>\<open>/data/gone\<close> and \<^verbatim>\<open>/data/a.txt\<close> and
  an algorithm that \<^verbatim>\<open>hashlib.new\<close> rejects, the fingerprint of the first candidate fails
  with \<^verbatim>\<open>FileNotFoundError\<close> and the file is passed over, and then the \<^verbatim>\<open>ValueError\<close> of
  the second candidate reaches the caller: the call does not return a baseline.
\<close>

theorem build_baseline_skips_io_errors_counterexample:
  "iter_files ex_env (map (resolve ex_env) [[''/'', ''data'', ''gone''], [''/'', ''data'', ''a.txt'']])
       [] False True
     = ([[''/'', ''data'', ''gone''], [''/'', ''data'', ''a.txt'']], None)
   \<and> from_path ex_env [''/'', ''data'', ''gone''] ''md6'' False = Inl (OSError FileNotFoundError)
   \<and> from_path ex_env [''/'', ''data'', ''a.txt''] ''md6'' False
       = Inl (ValueError ''Unsupported hash algorithm: md6'')
   \<and> build_baseline ex_env [[''/'', ''data'', ''gone''], [''/'', ''data'', ''a.txt'']] [] ''md6''
         False True False
       = Inl (ValueError ''Unsupported hash algorithm: md6'')"
  by code_simp

text \<open>
  C7, amended. For every configuration: a candidate whose fingerprint fails with an
  \<^verbatim>\<open>OSError\<close> (permission denied, file not found, any other) is passed over, and the loop
  goes on as if the file had not been a candidate. An error that does reach the caller
  is never such a failure: it is the exception that ended the walker, or the failure of
  a fingerprint that is not an \<^verbatim>\<open>OSError\<close>. When the walker ends without an exception
  and the fingerprint of every candidate either succeeds or fails with an \<^verbatim>\<open>OSError\<close>,
  \<open>build_baseline\<close> returns a baseline, its keys are exactly the strings of the
  candidates whose fingerprint succeeds, and each such candidate (the only candidate
  with its string) is stored with its record.
\<close>

theorem build_baseline_skips_io_errors:
  "(\<forall>f pre post b0. fingerprint_io_error env algorithm track_perms f \<longrightarrow>
       build_loop env algorithm track_perms (pre @ f # post) b0
         = build_loop env algorithm track_perms (pre @ post) b0)
   \<and> (\<forall>err. build_baseline env paths excludes algorithm follow_symlinks ignore_hidden
               track_perms = Inl err
         \<longrightarrow> snd (iter_files env (map (resolve env) paths) excludes follow_symlinks
                    ignore_hidden) = Some err
             \<or> (\<exists>f \<in> set (fst (iter_files env (map (resolve env) paths) excludes
                                  follow_symlinks ignore_hidden)).
                   from_path env f algorithm track_perms = Inl err
                   \<and> \<not> fingerprint_io_error env algorithm track_perms f))
   \<and> (iter_files env (map (resolve env) paths) excludes follow_symlinks ignore_hidden
         = (files, None)
       \<and> (\<forall>f \<in> set files. fingerprint_ok env algorithm track_perms f
                          \<or> fingerprint_io_error env algorithm track_perms f)
       \<longrightarrow> (\<exists>b. build_baseline env paths excludes algorithm follow_symlinks ignore_hidden
                   track_perms = Inr b
              \<and> fset (fmdom b)
                  = str_path ` set (filter (fingerprint_ok env algorithm track_perms) files)
              \<and> (\<forall>f \<in> set files. \<forall>info.
                    from_path env f algorithm track_perms = Inr info
                    \<and> (\<forall>g \<in> set files. str_path g = str_path f \<longrightarrow> g = f)
                    \<longrightarrow> fmlookup b (str_path f) = Some info)))"
proof (intro conjI allI impI)
  fix f pre post b0
  assume "fingerprint_io_error env algorithm track_perms f"
  then obtain e where "from_path env f algorithm track_perms = Inl (OSError e)"
    unfolding fingerprint_io_error_iff by blast
  then show "build_loop env algorithm track_perms (pre @ f # post) b0
         = build_loop env algorithm track_perms (pre @ post) b0"
    by (rule build_loop_skip)
next
  fix err
  assume bad: "build_baseline env paths excludes algorithm follow_symlinks ignore_hidden
               track_perms = Inl err"
  obtain fs ge where it:
    "iter_files env (map (resolve env) paths) excludes follow_symlinks ignore_hidden = (fs, ge)"
    by (cases "iter_files env (map (resolve env) paths) excludes follow_symlinks ignore_hidden")
  show "snd (iter_files env (map (resolve env) paths) excludes follow_symlinks
                    ignore_hidden) = Some err
             \<or> (\<exists>f \<in> set (fst (iter_files env (map (resolve env) paths) excludes
                                  follow_symlinks ignore_hidden)).
                   from_path env f algorithm track_perms = Inl err
                   \<and> \<not> fingerprint_io_error env algorithm track_perms f)"
  proof (cases "build_loop env algorithm track_perms fs fmempty")
    case (Inl e)
    with bad it have "e = err"
      by (simp add: build_baseline_def Let_def)
    with Inl have "build_loop env algorithm track_perms fs fmempty = Inl err"
      by simp
    from build_loop_error [OF this] it show ?thesis
      by simp
  next
    case (Inr b)
    with bad it have "ge = Some err"
      by (cases ge) (simp_all add: build_baseline_def Let_def)
    with it show ?thesis by simp
  qed
next
  assume a: "iter_files env (map (resolve env) paths) excludes follow_symlinks ignore_hidden
         = (files, None)
       \<and> (\<forall>f \<in> set files. fingerprint_ok env algorithm track_perms f
                          \<or> fingerprint_io_error env algorithm track_perms f)"
  from a have gen:
    "iter_files env (map (resolve env) paths) excludes follow_symlinks ignore_hidden
         = (files, None)" ..
  from a have io: "\<forall>f \<in> set files. fingerprint_ok env algorithm track_perms f
                          \<or> fingerprint_io_error env algorithm track_perms f" ..
  from build_loop_returns [OF io] obtain b
    where b: "build_loop env algorithm track_perms files fmempty = Inr b"
    by blast
  have ret: "build_baseline env paths excludes algorithm follow_symlinks ignore_hidden
                   track_perms = Inr b"
    using gen b by (simp add: build_baseline_def Let_def)
  have dom: "fset (fmdom b)
      = str_path ` set (filter (fingerprint_ok env algorithm track_perms) files)"
    using build_loop_dom [OF b] by simp
  have look: "\<forall>f \<in> set files. \<forall>info.
                    from_path env f algorithm track_perms = Inr info
                    \<and> (\<forall>g \<in> set files. str_path g = str_path f \<longrightarrow> g = f)
                    \<longrightarrow> fmlookup b (str_path f) = Some info"
    using build_loop_lookup [OF b] by blast
  from ret dom look
  show "\<exists>b. build_baseline env paths excludes algorithm follow_symlinks ignore_hidden
                   track_perms = Inr b
              \<and> fset (fmdom b)
                  = str_path ` set (filter (fingerprint_ok env algorithm track_perms) files)
              \<and> (\<forall>f \<in> set files. \<forall>info.
                    from_path env f algorithm track_perms = Inr info
                    \<and> (\<forall>g \<in> set files. str_path g = str_path f \<longrightarrow> g = f)
                    \<longrightarrow> fmlookup b (str_path f) = Some info)"
    by (intro exI [of _ b] conjI)
qed

theorem build_baseline_skips_io_errors_witness:
  "iter_files ex_env (map (resolve ex_env) [[''/'', ''data'']]) [] False True
     = ([[''/'', ''data'', ''a.txt''], [''/'', ''data'', ''locked''], [''/'', ''data'', ''gone''],
         [''/'', ''data'', ''sub'', ''b.log'']], None)
   \<and> from_path ex_env [''/'', ''data'', ''locked''] ''sha256'' True = Inl (OSError PermissionError)
   \<and> from_path ex_env [''/'', ''data'', ''gone''] ''sha256'' True = Inl (OSError FileNotFoundError)
   \<and> build_loop ex_env ''sha256'' True
         ([[''/'', ''data'', ''a.txt'']] @ [''/'', ''data'', ''locked''] # [[''/'', ''data'', ''gone'']])
         fmempty
       = build_loop ex_env ''sha256'' True
           ([[''/'', ''data'', ''a.txt'']] @ [[''/'', ''data'', ''gone'']]) fmempty
   \<and> (\<exists>b. build_baseline ex_env [[''/'', ''data'']] [] ''sha256'' False True True = Inr b
         \<and> fset (fmdom b) = {''/data/a.txt'', ''/data/sub/b.log''}
         \<and> fmlookup b ''/data/a.txt'' = Some (fi ''hello'' 5 10 (Some 420))
         \<and> fmlookup b ''/data/sub/b.log'' = Some (fi ''log'' 3 12 (Some 384)))
   \<and> build_baseline ex_env [[''/'', ''data'']] [] ''shake_128'' False True True = Inl TypeError
   \<and> (\<exists>f. f \<in> set (fst (iter_files ex_env (map (resolve ex_env) [[''/'', ''data'']]) []
                       False True))
         \<and> from_path ex_env f ''shake_128'' True = Inl TypeError)"
proof -
  let ?files = "[[''/'', ''data'', ''a.txt''], [''/'', ''data'', ''locked''],
     [''/'', ''data'', ''gone''], [''/'', ''data'', ''sub'', ''b.log'']]"
  let ?a = "[''/'', ''data'', ''a.txt'']"
  let ?l = "[''/'', ''data'', ''sub'', ''b.log'']"
  have gen: "iter_files ex_env (map (resolve ex_env) [[''/'', ''data'']]) [] False True
     = (?files, None)"
    by code_simp
  have io: "\<forall>f \<in> set ?files. fingerprint_ok ex_env ''sha256'' True f
                          \<or> fingerprint_io_error ex_env ''sha256'' True f"
    by code_simp
  have f1: "from_path ex_env ?a ''sha256'' True = Inr (fi ''hello'' 5 10 (Some 420))"
    by code_simp
  have f2: "from_path ex_env [''/'', ''data'', ''locked''] ''sha256'' True
      = Inl (OSError PermissionError)"
    by code_simp
  have f3: "from_path ex_env [''/'', ''data'', ''gone''] ''sha256'' True
      = Inl (OSError FileNotFoundError)"
    by code_simp
  have f4: "from_path ex_env ?l ''sha256'' True = Inr (fi ''log'' 3 12 (Some 384))"
    by code_simp
  have s1: "str_path ?a = ''/data/a.txt''" and s4: "str_path ?l = ''/data/sub/b.log''"
    by code_simp+
  have u1: "\<forall>g \<in> set ?files. str_path g = str_path ?a \<longrightarrow> g = ?a"
    by code_simp
  have u4: "\<forall>g \<in> set ?files. str_path g = str_path ?l \<longrightarrow> g = ?l"
    by code_simp
  have keys: "str_path ` set (filter (fingerprint_ok ex_env ''sha256'' True) ?files)
      = {''/data/a.txt'', ''/data/sub/b.log''}"
    by code_simp
  have m1: "?a \<in> set ?files" and m4: "?l \<in> set ?files"
    by code_simp+
  from build_baseline_skips_io_errors
    [of ex_env "''sha256''" True "[[''/'', ''data'']]" "[]" False True ?files]
  have "iter_files ex_env (map (resolve ex_env) [[''/'', ''data'']]) [] False True
         = (?files, None)
       \<and> (\<forall>f \<in> set ?files. fingerprint_ok ex_env ''sha256'' True f
                          \<or> fingerprint_io_error ex_env ''sha256'' True f)
       \<longrightarrow> (\<exists>b. build_baseline ex_env [[''/'', ''data'']] [] ''sha256'' False True True = Inr b
              \<and> fset (fmdom b)
                  = str_path ` set (filter (fingerprint_ok ex_env ''sha256'' True) ?files)
              \<and> (\<forall>f \<in> set ?files. \<forall>info.
                    from_path ex_env f ''sha256'' True = Inr info
                    \<and> (\<forall>g \<in> set ?files. str_path g = str_path f \<longrightarrow> g = f)
                    \<longrightarrow> fmlookup b (str_path f) = Some info))"
    by (rule conjunct2 [THEN conjunct2])
  from this conjI [OF gen io]
  have "\<exists>b. build_baseline ex_env [[''/'', ''data'']] [] ''sha256'' False True True = Inr b
              \<and> fset (fmdom b)
                  = str_path ` set (filter (fingerprint_ok ex_env ''sha256'' True) ?files)
              \<and> (\<forall>f \<in> set ?files. \<forall>info.
                    from_path ex_env f ''sha256'' True = Inr info
                    \<and> (\<forall>g \<in> set ?files. str_path g = str_path f \<longrightarrow> g = f)
                    \<longrightarrow> fmlookup b (str_path f) = Some info)"
    by (rule mp)
  then obtain b where all3:
    "build_baseline ex_env [[''/'', ''data'']] [] ''sha256'' False True True = Inr b
      \<and> fset (fmdom b)
          = str_path ` set (filter (fingerprint_ok ex_env ''sha256'' True) ?files)
      \<and> (\<forall>f \<in> set ?files. \<forall>info.
            from_path ex_env f ''sha256'' True = Inr info
            \<and> (\<forall>g \<in> set ?files. str_path g = str_path f \<longrightarrow> g = f)
            \<longrightarrow> fmlookup b (str_path f) = Some info)" ..
  from all3 have ret:
    "build_baseline ex_env [[''/'', ''data'']] [] ''sha256'' False True True = Inr b" ..
  from all3 [THEN conjunct2] have dom: "fset (fmdom b)
          = str_path ` set (filter (fingerprint_ok ex_env ''sha256'' True) ?files)" ..
  note look = all3 [THEN conjunct2, THEN conjunct2]
  from dom have d: "fset (fmdom b) = {''/data/a.txt'', ''/data/sub/b.log''}"
    unfolding keys .
  from look [THEN bspec, OF m1, THEN spec, THEN mp, OF conjI [OF f1 u1]]
  have l1: "fmlookup b ''/data/a.txt'' = Some (fi ''hello'' 5 10 (Some 420))"
    unfolding s1 .
  from look [THEN bspec, OF m4, THEN spec, THEN mp, OF conjI [OF f4 u4]]
  have l4: "fmlookup b ''/data/sub/b.log'' = Some (fi ''log'' 3 12 (Some 384))"
    unfolding s4 .
  from ret d l1 l4
  have "\<exists>b. build_baseline ex_env [[''/'', ''data'']] [] ''sha256'' False True True = Inr b
         \<and> fset (fmdom b) = {''/data/a.txt'', ''/data/sub/b.log''}
         \<and> fmlookup b ''/data/a.txt'' = Some (fi ''hello'' 5 10 (Some 420))
         \<and> fmlookup b ''/data/sub/b.log'' = Some (fi ''log'' 3 12 (Some 384))"
    by (intro exI [of _ b] conjI)
  moreover have "fingerprint_io_error ex_env ''sha256'' True [''/'', ''data'', ''locked'']"
    by code_simp
  from build_baseline_skips_io_errors
    [of ex_env "''sha256''" True "[[''/'', ''data'']]" "[]" False True ?files,
     THEN conjunct1, THEN spec, THEN spec, THEN spec, THEN spec, THEN mp, OF this]
  have "build_loop ex_env ''sha256'' True
         ([?a] @ [''/'', ''data'', ''locked''] # [[''/'', ''data'', ''gone'']]) fmempty
       = build_loop ex_env ''sha256'' True ([?a] @ [[''/'', ''data'', ''gone'']]) fmempty" .
  moreover have bad: "build_baseline ex_env [[''/'', ''data'']] [] ''shake_128'' False True True
      = Inl TypeError"
    by code_simp
  moreover have "\<exists>f. f \<in> set (fst (iter_files ex_env (map (resolve ex_env) [[''/'', ''data'']]) []
                       False True))
         \<and> from_path ex_env f ''shake_128'' True = Inl TypeError"
  proof -
    have nogen: "snd (iter_files ex_env (map (resolve ex_env) [[''/'', ''data'']]) [] False True)
        \<noteq> Some TypeError"
      unfolding gen by simp
    from build_baseline_skips_io_errors
      [of ex_env "''shake_128''" True "[[''/'', ''data'']]" "[]" False True ?files,
       THEN conjunct2, THEN conjunct1, THEN spec, THEN mp, OF bad]
    show ?thesis
    proof
      assume "snd (iter_files ex_env (map (resolve ex_env) [[''/'', ''data'']]) [] False True)
          = Some TypeError"
      with nogen show ?thesis ..
    next
      assume "\<exists>f \<in> set (fst (iter_files ex_env (map (resolve ex_env) [[''/'', ''data'']]) []
                       False True)).
          from_path ex_env f ''shake_128'' True = Inl TypeError
          \<and> \<not> fingerprint_io_error ex_env ''shake_128'' True f"
      then obtain f where "f \<in> set (fst (iter_files ex_env (map (resolve ex_env)
            [[''/'', ''data'']]) [] False True))"
        and "from_path ex_env f ''shake_128'' True = Inl TypeError"
        unfolding Bex_def by (elim exE conjE)
      then show ?thesis
        by (intro exI [of _ f] conjI)
    qed
  qed
  ultimately show ?thesis
    using gen f2 f3 by (intro conjI)
qed

section \<open>Path walker: hidden files and directories\<close>

lemma is_hidden_Nil: "\<not> is_hidden []"
  by (simp add: is_hidden_def)

lemma is_hidden_Cons: "is_hidden (a # p) \<longleftrightarrow> startswith_dot a \<or> is_hidden p"
  by (simp add: is_hidden_def)

lemma is_hidden_append: "is_hidden (p @ q) \<longleftrightarrow> is_hidden p \<or> is_hidden q"
  by (simp add: is_hidden_def list_ex_iff) blast

lemma os_walk_visits:
  "t \<in> set (os_walk followlinks (prune_hidden True) dirpath n) \<Longrightarrow>
   \<exists>rel. fst t = dirpath @ rel \<and> \<not> is_hidden rel"
proof (induction followlinks "prune_hidden True" dirpath n arbitrary: t rule: os_walk.induct)
  case (1 followlinks dirpath f)
  then show ?case by simp
next
  case (2 followlinks dirpath l)
  then show ?case by simp
next
  case (3 followlinks dirpath l entries)
  let ?dirs = "map fst (filter (\<lambda>e. is_dir_node (snd e)) entries)"
  let ?nondirs = "map fst (filter (\<lambda>e. \<not> is_dir_node (snd e)) entries)"
  let ?sub = "\<lambda>dirname. case map_of entries dirname of
                     None \<Rightarrow> []
                   | Some child \<Rightarrow>
                       if followlinks \<or> \<not> is_link_node child
                       then os_walk followlinks (prune_hidden True) (dirpath @ [dirname]) child
                       else []"
  from "3.prems" have "t = (dirpath, ?dirs, ?nondirs)
      \<or> (\<exists>dirname \<in> set (prune_hidden True ?dirs). t \<in> set (?sub dirname))"
    by (simp add: Let_def)
  then show ?case
  proof
    assume "t = (dirpath, ?dirs, ?nondirs)"
    then have "fst t = dirpath @ []" by simp
    with is_hidden_Nil show ?thesis by blast
  next
    assume "\<exists>dirname \<in> set (prune_hidden True ?dirs). t \<in> set (?sub dirname)"
    then obtain dirname where dn: "dirname \<in> set (prune_hidden True ?dirs)"
      and t: "t \<in> set (?sub dirname)"
      by blast
    show ?thesis
    proof (cases "map_of entries dirname")
      case None
      with t show ?thesis by simp
    next
      case (Some child)
      show ?thesis
      proof (cases "followlinks \<or> \<not> is_link_node child")
        case False
        with t Some show ?thesis by simp
      next
        case True
        with t Some
        have t': "t \<in> set (os_walk followlinks (prune_hidden True) (dirpath @ [dirname]) child)"
          by simp
        from "3.hyps" [OF refl refl dn Some True t']
        obtain rel where rel: "fst t = (dirpath @ [dirname]) @ rel" "\<not> is_hidden rel"
          by blast
        from dn have "\<not> startswith_dot dirname"
          by (simp add: prune_hidden_def)
        with rel have "fst t = dirpath @ (dirname # rel)" "\<not> is_hidden (dirname # rel)"
          by (simp_all add: is_hidden_Cons)
        then show ?thesis by blast
      qed
    qed
  qed
qed

lemma walk_filenames_not_hidden:
  "f \<in> set (walk_filenames env excludes roots True dpath filenames) \<Longrightarrow> \<not> is_hidden f"
  by (induction filenames) (auto simp: Let_def split: if_splits sum.splits)

lemma iter_roots_not_hidden:
  "f \<in> set (fst (iter_roots env excludes follow_symlinks True roots rs)) \<Longrightarrow> \<not> is_hidden f"
proof (induction rs)
  case Nil
  then show ?case by simp
next
  case (Cons r rs)
  show ?case
  proof (cases "is_file env r")
    case (Inl e)
    with Cons.prems show ?thesis by simp
  next
    case (Inr b)
    obtain later err where it: "iter_roots env excludes follow_symlinks True roots rs = (later, err)"
      by (cases "iter_roots env excludes follow_symlinks True roots rs")
    from Cons.prems Inr it consider "b" "f = r" "\<not> is_hidden r"
      | "\<not> b" "f \<in> set (concat (map (\<lambda>(dirpath, dirnames, filenames).
                                walk_filenames env excludes roots True dirpath filenames)
                              (walk_root env follow_symlinks True r)))"
      | "f \<in> set later"
      by (auto simp: Let_def split: if_splits)
    then show ?thesis
    proof cases
      case 1
      then show ?thesis by simp
    next
      case 2
      then show ?thesis by (auto dest: walk_filenames_not_hidden)
    next
      case 3
      with Cons.IH it show ?thesis by simp
    qed
  qed
qed

lemma iter_files_not_hidden:
  "f \<in> set (fst (iter_files env paths excludes follow_symlinks True)) \<Longrightarrow> \<not> is_hidden f"
  unfolding iter_files_def Let_def by (rule iter_roots_not_hidden)

lemma visited_roots_below:
  "v \<in> set (visited_roots env follow_symlinks True rs) \<Longrightarrow>
   \<exists>r \<in> set rs. \<exists>rel. v = r @ rel \<and> \<not> is_hidden rel"
proof (induction rs)
  case Nil
  then show ?case by simp
next
  case (Cons r rs)
  show ?case
  proof (cases "is_file env r")
    case (Inl e)
    with Cons.prems show ?thesis by simp
  next
    case (Inr b)
    with Cons.prems consider "v \<in> set (map fst (walk_root env follow_symlinks True r))"
      | "v \<in> set (visited_roots env follow_symlinks True rs)"
      by (auto split: if_splits)
    then show ?thesis
    proof cases
      case 1
      then obtain t where t: "t \<in> set (walk_root env follow_symlinks True r)" "v = fst t"
        by auto
      show ?thesis
      proof (cases "node_at env r")
        case None
        with t show ?thesis by (simp add: walk_root_def)
      next
        case (Some n)
        with t have "t \<in> set (os_walk follow_symlinks (prune_hidden True) r n)"
          by (simp add: walk_root_def)
        from os_walk_visits [OF this] t(2) show ?thesis by auto
      qed
    next
      case 2
      with Cons.IH show ?thesis by auto
    qed
  qed
qed

lemma build_baseline_keys:
  assumes "build_baseline env paths excludes algorithm follow_symlinks ignore_hidden tp = Inr b"
    and "k |\<in>| fmdom b"
  shows "\<exists>f \<in> set (fst (iter_files env (map (resolve env) paths) excludes follow_symlinks
                ignore_hidden)). k = str_path f"
proof -
  obtain files err where it:
    "iter_files env (map (resolve env) paths) excludes follow_symlinks ignore_hidden = (files, err)"
    by (cases "iter_files env (map (resolve env) paths) excludes follow_symlinks ignore_hidden")
  with assms(1) have bl: "build_loop env algorithm tp files fmempty = Inr b"
    by (auto simp: build_baseline_def Let_def split: sum.splits option.splits)
  from build_loop_dom [OF bl] assms(2) have "k \<in> str_path ` set files"
    by auto
  with it show ?thesis by auto
qed

text \<open>
  C6, as the specification states it, fails: a configured root is walked whatever its
  own path is. With the root \<^verbatim>\<open>/.cfg\<close> and \<open>ignore_hidden\<close> true the walk lists the
  hidden directory \<^verbatim>\<open>/.cfg\<close> and descends into \<^verbatim>\<open>/.cfg/app\<close>, a directory under a hidden
  directory; it yields no file of either.
\<close>

theorem hidden_pruning_counterexample:
  "is_hidden [''/'', ''.cfg'']
   \<and> is_hidden [''/'', ''.cfg'', ''app'']
   \<and> visited_dirs ex_env [[''/'', ''.cfg'']] False True
       = [[''/'', ''.cfg''], [''/'', ''.cfg'', ''app'']]
   \<and> iter_files ex_env [[''/'', ''.cfg'']] [] False True = ([], None)"
  by code_simp

text \<open>
  C6, amended. With \<open>ignore_hidden\<close> true, every key of the baseline that
  \<open>build_baseline\<close> returns is the string of a yielded path none of whose components
  begins with a dot; and below each configured root the walk never descends into a
  directory whose name begins with a dot: every directory it lists is a root followed
  by components none of which begins with a dot, the pruned names being removed from the
  recursion list before the recursion. A configured root directory is itself listed
  whatever its own path is.
\<close>

theorem hidden_pruning:
  "(\<forall>b k. build_baseline env paths excludes algorithm follow_symlinks True track_perms = Inr b
           \<and> k |\<in>| fmdom b
        \<longrightarrow> (\<exists>f \<in> set (fst (iter_files env (map (resolve env) paths) excludes
                             follow_symlinks True)).
               k = str_path f \<and> \<not> is_hidden f))
   \<and> (\<forall>v \<in> set (visited_dirs env roots follow_symlinks True).
         \<exists>r \<in> set (map (resolve env) roots). \<exists>rel. v = r @ rel \<and> \<not> is_hidden rel)"
proof (intro conjI allI impI ballI)
  fix b k
  assume "build_baseline env paths excludes algorithm follow_symlinks True track_perms = Inr b
           \<and> k |\<in>| fmdom b"
  then have "\<exists>f \<in> set (fst (iter_files env (map (resolve env) paths) excludes
                             follow_symlinks True)). k = str_path f"
    using build_baseline_keys by blast
  then show "\<exists>f \<in> set (fst (iter_files env (map (resolve env) paths) excludes
                             follow_symlinks True)).
               k = str_path f \<and> \<not> is_hidden f"
    using iter_files_not_hidden by blast
next
  fix v
  assume "v \<in> set (visited_dirs env roots follow_symlinks True)"
  then show "\<exists>r \<in> set (map (resolve env) roots). \<exists>rel. v = r @ rel \<and> \<not> is_hidden rel"
    unfolding visited_dirs_def by (rule visited_roots_below)
qed

theorem hidden_pruning_witness:
  "(\<exists>b. build_baseline ex_env [[''/'', ''data'']] [] ''sha256'' False True False = Inr b
        \<and> ''/data/a.txt'' |\<in>| fmdom b)
   \<and> (\<exists>f. f \<in> set (fst (iter_files ex_env (map (resolve ex_env) [[''/'', ''data'']]) []
                       False True))
         \<and> ''/data/a.txt'' = str_path f \<and> \<not> is_hidden f)
   \<and> visited_dirs ex_env [[''/'', ''data'']] False True
       = [[''/'', ''data''], [''/'', ''data'', ''sub'']]
   \<and> (\<exists>r. r \<in> set (map (resolve ex_env) [[''/'', ''data'']])
         \<and> (\<exists>rel. [''/'', ''data'', ''sub''] = r @ rel \<and> \<not> is_hidden rel))
   \<and> visited_dirs ex_env [[''/'', ''data'']] False False
       = [[''/'', ''data''], [''/'', ''data'', ''.git''], [''/'', ''data'', ''sub'']]"
proof -
  let ?bb = "build_baseline ex_env [[''/'', ''data'']] [] ''sha256'' False True False"
  have ev: "case ?bb of Inl e \<Rightarrow> False | Inr b \<Rightarrow> ''/data/a.txt'' |\<in>| fmdom b"
    by code_simp
  then obtain b where b: "?bb = Inr b \<and> ''/data/a.txt'' |\<in>| fmdom b"
    by (cases ?bb) simp_all
  note inst = hidden_pruning [of ex_env "[[''/'', ''data'']]" "[]" "''sha256''" False False
      "[[''/'', ''data'']]"]
  from inst [THEN conjunct1, THEN spec, THEN spec, THEN mp, OF b]
  have keys: "\<exists>f. f \<in> set (fst (iter_files ex_env (map (resolve ex_env) [[''/'', ''data'']]) []
                       False True))
         \<and> ''/data/a.txt'' = str_path f \<and> \<not> is_hidden f"
    unfolding Bex_def .
  have v1: "visited_dirs ex_env [[''/'', ''data'']] False True
       = [[''/'', ''data''], [''/'', ''data'', ''sub'']]"
    by code_simp
  have v2: "visited_dirs ex_env [[''/'', ''data'']] False False
       = [[''/'', ''data''], [''/'', ''data'', ''.git''], [''/'', ''data'', ''sub'']]"
    by code_simp
  have mem: "[''/'', ''data'', ''sub''] \<in> set (visited_dirs ex_env [[''/'', ''data'']] False True)"
    by code_simp
  from inst [THEN conjunct2, THEN bspec, OF mem]
  have below: "\<exists>r. r \<in> set (map (resolve ex_env) [[''/'', ''data'']])
         \<and> (\<exists>rel. [''/'', ''data'', ''sub''] = r @ rel \<and> \<not> is_hidden rel)"
    unfolding Bex_def .
  from b have ex: "\<exists>b. ?bb = Inr b \<and> ''/data/a.txt'' |\<in>| fmdom b" ..
  from ex keys v1 below v2 show ?thesis
    by (intro conjI)
qed

text \<open>
  C9. The hidden test looks at every component of the path, those of the configured
  root included. With \<open>ignore_hidden\<close> true, no path that lies at or below a path with
  a component beginning with a dot (in particular a root that is a regular file under a
  dot-prefixed directory, with a base name that does not begin with a dot) is yielded by
  \<open>iter_files\<close>, and every key of a built baseline is the string of a yielded path,
  hence of another path.
\<close>

theorem hidden_root_file_never_yielded:
  assumes "is_hidden d"
  shows "(\<forall>rel. d @ rel \<notin> set (fst (iter_files env paths excludes follow_symlinks True)))
    \<and> (\<forall>b k. build_baseline env paths excludes algorithm follow_symlinks True track_perms = Inr b
             \<and> k |\<in>| fmdom b
          \<longrightarrow> (\<exists>f \<in> set (fst (iter_files env (map (resolve env) paths) excludes
                               follow_symlinks True)).
                 k = str_path f \<and> (\<forall>rel. f \<noteq> d @ rel)))"
proof (intro conjI allI impI)
  fix rel
  from assms have "is_hidden (d @ rel)"
    by (simp add: is_hidden_append)
  then show "d @ rel \<notin> set (fst (iter_files env paths excludes follow_symlinks True))"
    using iter_files_not_hidden by blast
next
  fix b k
  assume "build_baseline env paths excludes algorithm follow_symlinks True track_perms = Inr b
             \<and> k |\<in>| fmdom b"
  then obtain f where f: "f \<in> set (fst (iter_files env (map (resolve env) paths) excludes
                               follow_symlinks True))" "k = str_path f"
    using build_baseline_keys by blast
  from f(1) have nh: "\<not> is_hidden f"
    by (rule iter_files_not_hidden)
  have "\<forall>rel. f \<noteq> d @ rel"
  proof (intro allI notI)
    fix rel
    assume "f = d @ rel"
    with assms have "is_hidden f"
      by (simp add: is_hidden_append)
    with nh show False ..
  qed
  with f show "\<exists>f \<in> set (fst (iter_files env (map (resolve env) paths) excludes
                               follow_symlinks True)).
                 k = str_path f \<and> (\<forall>rel. f \<noteq> d @ rel)"
    by blast
qed

theorem hidden_root_file_never_yielded_witness:
  "is_hidden [''/'', ''.cfg'']
   \<and> is_file ex_env ([''/'', ''.cfg''] @ [''f'']) = Inr True
   \<and> \<not> startswith_dot (name_path ([''/'', ''.cfg''] @ [''f'']))
   \<and> [''/'', ''.cfg''] @ [''f'']
       \<notin> set (fst (iter_files ex_env [[''/'', ''.cfg'', ''f'']] [] False True))
   \<and> iter_files ex_env [[''/'', ''.cfg'', ''f'']] [] False False
       = ([[''/'', ''.cfg'', ''f'']], None)
   \<and> (\<exists>b. build_baseline ex_env [[''/'', ''.cfg'', ''f''], [''/'', ''data'']] [] ''sha256''
              False True False = Inr b
         \<and> ''/data/a.txt'' |\<in>| fmdom b)
   \<and> (\<exists>f. f \<in> set (fst (iter_files ex_env
                (map (resolve ex_env) [[''/'', ''.cfg'', ''f''], [''/'', ''data'']]) [] False True))
         \<and> ''/data/a.txt'' = str_path f \<and> f \<noteq> [''/'', ''.cfg''] @ [''f''])"
proof -
  let ?d = "[''/'', ''.cfg'']"
  let ?r = "[''/'', ''.cfg'', ''f'']"
  let ?bb = "build_baseline ex_env [?r, [''/'', ''data'']] [] ''sha256'' False True False"
  have h: "is_hidden ?d"
    by code_simp
  have f: "is_file ex_env (?d @ [''f'']) = Inr True"
    by code_simp
  have n: "\<not> startswith_dot (name_path (?d @ [''f'']))"
    by code_simp
  have y: "iter_files ex_env [?r] [] False False = ([?r], None)"
    by code_simp
  from hidden_root_file_never_yielded [OF h, of ex_env "[?r]" "[]" False "''sha256''" False,
      THEN conjunct1, THEN spec, of "[''f'']"]
  have ny: "?d @ [''f''] \<notin> set (fst (iter_files ex_env [?r] [] False True))" .
  have "case ?bb of Inl e \<Rightarrow> False | Inr b \<Rightarrow> ''/data/a.txt'' |\<in>| fmdom b"
    by code_simp
  then obtain b where b: "?bb = Inr b \<and> ''/data/a.txt'' |\<in>| fmdom b"
    by (cases ?bb) simp_all
  from hidden_root_file_never_yielded
    [OF h, of ex_env "[?r, [''/'', ''data'']]" "[]" False "''sha256''" False,
     THEN conjunct2, THEN spec, THEN spec, THEN mp, OF b]
  obtain g where g: "g \<in> set (fst (iter_files ex_env
                (map (resolve ex_env) [?r, [''/'', ''data'']]) [] False True))"
    and kg: "''/data/a.txt'' = str_path g" and ng: "\<forall>rel. g \<noteq> ?d @ rel"
    unfolding Bex_def by (elim exE conjE)
  from ng have "g \<noteq> ?d @ [''f'']" ..
  with g kg have keys: "\<exists>f. f \<in> set (fst (iter_files ex_env
                (map (resolve ex_env) [?r, [''/'', ''data'']]) [] False True))
         \<and> ''/data/a.txt'' = str_path f \<and> f \<noteq> ?d @ [''f'']"
    by (intro exI [of _ g] conjI)
  from b have ex: "\<exists>b. ?bb = Inr b \<and> ''/data/a.txt'' |\<in>| fmdom b" ..
  from h f n ny y ex keys show ?thesis
    by (intro conjI)
qed

end
